theory Spec2Isabelle
  imports Main "HOL-Library.Word"
begin

section \<open>The Wrigley modem power controller (drivers/misc/radio_ctrl/wrigley_ctrl.c)\<close>

text \<open>
  The driver sequences the power rails of a modem over four GPIO lines and keeps a
  status word. The embedding below follows the C source function by function.

  \<^item> \<open>struct wrigley_info\<close> is the record \<open>wrigley_info\<close>. The four \<open>char\<close> arrays
    holding the GPIO labels and the embedded notifier block carry no behaviour and are
    left out; \<open>rdev.dev\<close> is kept as the flag \<open>rdev_dev\<close> (pointer is non-NULL).
  \<^item> \<open>enum wrigley_status\<close> has no negative enumerator, so the compiler gives it the type
    \<open>unsigned int\<close>: the field is a 32-bit word and the comparison in
    \<open>wrigley_status_show\<close> is an unsigned one.
  \<^item> Everything outside the driver is the record \<open>world\<close>: the level last driven on (or
    found at attach on) each GPIO line, what the lines read when sampled, and the trace
    of the calls the driver has made to the kernel, oldest first.
  \<^item> \<open>ssize_t\<close> and \<open>int\<close> results are \<open>int\<close>.
  \<^item> \<open>wrigley_power_lock\<close> is taken at the start of \<open>wrigley_do_powerup\<close> and
    \<open>wrigley_do_powerdown\<close> and released on each of their return paths; the model is
    sequential, each operation runs to completion, and the lock is not represented.
    The \<open>pr_*\<close> logging calls have no effect on the state and are left out.
\<close>

subsection \<open>The kernel side: GPIO lines, sleeping, user-space events\<close>

type_synonym gpio = "32 word"

datatype event =
    GpioRequest gpio
  | GpioFree gpio
  | GpioExport gpio
  | GpioDirIn gpio
  | GpioOut gpio bool
  | GpioGet gpio bool
  | Msleep nat
  | IrqRequest gpio
  | IrqFree gpio
  | RebootNotifierRegister
  | RadioDevRegister
  | Uevent "string list"

text \<open>
  \<open>level w g\<close> is the level of line \<open>g\<close> as the driver last drove it (before the first
  write: the level found on the line). \<open>sense w n g\<close> is what the \<open>n\<close>-th call of
  \<open>gpio_get_value\<close> returns when it samples line \<open>g\<close>: the driver only samples lines
  it does not drive at that moment, so the value belongs to the environment.
\<close>

record world =
  level :: "gpio \<Rightarrow> bool"
  sense :: "nat \<Rightarrow> gpio \<Rightarrow> bool"
  reads :: nat
  trace :: "event list"

definition emit :: "event \<Rightarrow> world \<Rightarrow> world" where
  "emit e w = w\<lparr>trace := trace w @ [e]\<rparr>"

definition gpio_direction_output :: "gpio \<Rightarrow> bool \<Rightarrow> world \<Rightarrow> world" where
  "gpio_direction_output g v w = emit (GpioOut g v) (w\<lparr>level := (level w)(g := v)\<rparr>)"

definition gpio_get_value :: "gpio \<Rightarrow> world \<Rightarrow> bool \<times> world" where
  "gpio_get_value g w =
     (let v = sense w (reads w) g
      in (v, emit (GpioGet g v) (w\<lparr>reads := Suc (reads w)\<rparr>)))"

definition msleep :: "nat \<Rightarrow> world \<Rightarrow> world" where
  "msleep ms w = emit (Msleep ms) w"

text \<open>\<open>kobject_uevent\<close> is \<open>kobject_uevent_env\<close> with no extra environment.\<close>

definition kobject_uevent_env :: "string list \<Rightarrow> world \<Rightarrow> world" where
  "kobject_uevent_env envp w = emit (Uevent envp) w"

definition kobject_uevent :: "world \<Rightarrow> world" where
  "kobject_uevent w = kobject_uevent_env [] w"

subsection \<open>The controller state\<close>

type_synonym wrigley_status = "32 word"

definition WRIGLEY_STATUS_NORMAL :: wrigley_status where "WRIGLEY_STATUS_NORMAL = 0"
definition WRIGLEY_STATUS_FLASH :: wrigley_status where "WRIGLEY_STATUS_FLASH = 1"
definition WRIGLEY_STATUS_RESETTING :: wrigley_status where "WRIGLEY_STATUS_RESETTING = 2"
definition WRIGLEY_STATUS_OFF :: wrigley_status where "WRIGLEY_STATUS_OFF = 3"
definition WRIGLEY_STATUS_UNDEFINED :: wrigley_status where "WRIGLEY_STATUS_UNDEFINED = 4"

record wrigley_info =
  disable_gpio :: gpio
  power_gpio :: gpio
  flash_gpio :: gpio
  reset_gpio :: gpio
  boot_flash :: bool
  tcmd_suspended :: bool
  status :: wrigley_status
  rdev_dev :: bool

subsection \<open>Power down\<close>

text \<open>
  The loop of \<open>wrigley_do_powerdown\<close>: \<open>for (i = 0; i < 10; i++)\<close>, leaving at the first
  sample of the reset line that reads low, sleeping 400 ms after every other sample.
\<close>

function powerdown_poll :: "nat \<Rightarrow> wrigley_info \<Rightarrow> world \<Rightarrow> world" where
  "powerdown_poll i info w =
     (if i < 10 then
        (case gpio_get_value (reset_gpio info) w of
           (v, w1) \<Rightarrow> if \<not> v then w1 else powerdown_poll (Suc i) info (msleep 400 w1))
      else w)"
  by pat_completeness auto
termination
  by (relation "measure (\<lambda>(i, info, w). 10 - i)") auto

definition wrigley_do_powerdown :: "wrigley_info \<Rightarrow> world \<Rightarrow> int \<times> wrigley_info \<times> world" where
  "wrigley_do_powerdown info w =
     (if status info = WRIGLEY_STATUS_OFF then (0, info, w)
      else
        let w1 = gpio_direction_output (disable_gpio info) False w;
            w2 = powerdown_poll 0 info w1;
            w3 = gpio_direction_output (power_gpio info) False w2
        in (0, info\<lparr>status := WRIGLEY_STATUS_OFF\<rparr>, w3))"

subsection \<open>Power up\<close>

text \<open>
  The loop of \<open>wrigley_do_powerup\<close>. \<open>err\<close> is \<open>-1\<close> on entry; a sample that reads high
  sets it to \<open>0\<close> and leaves the loop. The function returns the value of \<open>err\<close> after
  the loop together with the world.
\<close>

function powerup_poll :: "nat \<Rightarrow> int \<Rightarrow> wrigley_info \<Rightarrow> world \<Rightarrow> int \<times> world" where
  "powerup_poll i err info w =
     (if i < 10 then
        (case gpio_get_value (reset_gpio info) w of
           (v, w1) \<Rightarrow> if v then (0, w1) else powerup_poll (Suc i) err info (msleep 400 w1))
      else (err, w))"
  by pat_completeness auto
termination
  by (relation "measure (\<lambda>(i, err, info, w). 10 - i)") auto

definition wrigley_do_powerup :: "wrigley_info \<Rightarrow> world \<Rightarrow> int \<times> wrigley_info \<times> world" where
  "wrigley_do_powerup info w =
     (let err = - 1 in
      if status info = WRIGLEY_STATUS_FLASH \<or> status info = WRIGLEY_STATUS_NORMAL
      then (err, info, w)
      else
        let w1 = (if boot_flash info
                  then gpio_direction_output (flash_gpio info) True w
                  else gpio_direction_output (flash_gpio info) False w);
            w2 = gpio_direction_output (disable_gpio info) True w1;
            w3 = gpio_direction_output (power_gpio info) True w2
        in case powerup_poll 0 err info w3 of
             (err', w4) \<Rightarrow>
               if err' = 0 then
                 (if boot_flash info
                  then (err', info\<lparr>status := WRIGLEY_STATUS_FLASH\<rparr>, w4)
                  else (err', info\<lparr>status := WRIGLEY_STATUS_NORMAL\<rparr>, w4))
               else (err', info\<lparr>status := WRIGLEY_STATUS_UNDEFINED\<rparr>, w4))"

subsection \<open>Boot mode, commands\<close>

definition wrigley_set_flash_mode :: "wrigley_info \<Rightarrow> bool \<Rightarrow> int \<times> wrigley_info" where
  "wrigley_set_flash_mode info enable = (0, info\<lparr>boot_flash := enable\<rparr>)"

text \<open>
  \<open>strcmp\<close> as in the kernel's \<open>lib/string.c\<close>: bytes are compared as unsigned values,
  the result is \<open>-1\<close>, \<open>0\<close> or \<open>1\<close>. A \<open>string\<close> stands for the bytes of a C string
  before its terminating NUL, so the end of the list is the terminator.
\<close>

fun strcmp :: "string \<Rightarrow> string \<Rightarrow> int" where
  "strcmp [] [] = 0"
| "strcmp [] (c2 # ct) = - 1"
| "strcmp (c1 # cs) [] = 1"
| "strcmp (c1 # cs) (c2 # ct) =
     (if c1 \<noteq> c2 then (if (of_char c1 :: nat) < of_char c2 then - 1 else 1)
      else strcmp cs ct)"

text \<open>\<open>EINVAL\<close> and \<open>ENOMEM\<close> are the values of the kernel's \<open>errno-base.h\<close>.\<close>

definition EINVAL :: int where "EINVAL = 22"
definition ENOMEM :: int where "ENOMEM = 12"

definition wrigley_command :: "wrigley_info \<Rightarrow> string \<Rightarrow> world \<Rightarrow> int \<times> wrigley_info \<times> world" where
  "wrigley_command info cmd w =
     (if strcmp cmd ''shutdown'' = 0 then wrigley_do_powerdown info w
      else if strcmp cmd ''powerup'' = 0 then wrigley_do_powerup info w
      else if strcmp cmd ''bootmode_normal'' = 0 then
        (case wrigley_set_flash_mode info False of (r, info') \<Rightarrow> (r, info', w))
      else if strcmp cmd ''bootmode_flash'' = 0 then
        (case wrigley_set_flash_mode info True of (r, info') \<Rightarrow> (r, info', w))
      else if strcmp cmd ''suspend'' = 0 then (0, info\<lparr>tcmd_suspended := True\<rparr>, w)
      else (- EINVAL, info, w))"

subsection \<open>Status text\<close>

text \<open>
  Modelled from the spec: the header \<open>linux/radio_ctrl/radio_class.h\<close> that defines the
  five \<open>RADIO_STATUS_*_NAME\<close> strings is not part of the sources; the spec gives the
  tokens as \<open>normal\<close>, \<open>flash\<close>, \<open>resetting\<close>, \<open>off\<close>, \<open>undefined\<close>.
  \<open>RADIO_STATUS_MAX_LENGTH\<close> of the same header is a parameter of
  \<open>wrigley_status_show\<close>.
\<close>

definition RADIO_STATUS_NORMAL_NAME :: string where "RADIO_STATUS_NORMAL_NAME = ''normal''"
definition RADIO_STATUS_FLASH_NAME :: string where "RADIO_STATUS_FLASH_NAME = ''flash''"
definition RADIO_STATUS_RESETTING_NAME :: string where "RADIO_STATUS_RESETTING_NAME = ''resetting''"
definition RADIO_STATUS_OFF_NAME :: string where "RADIO_STATUS_OFF_NAME = ''off''"
definition RADIO_STATUS_UNDEFINED_NAME :: string where "RADIO_STATUS_UNDEFINED_NAME = ''undefined''"

text \<open>The table \<open>wrigley_status_str\<close>, its designated initialisers in index order.\<close>

definition wrigley_status_str :: "string list" where
  "wrigley_status_str =
     [RADIO_STATUS_NORMAL_NAME, RADIO_STATUS_FLASH_NAME, RADIO_STATUS_RESETTING_NAME,
      RADIO_STATUS_OFF_NAME, RADIO_STATUS_UNDEFINED_NAME]"

text \<open>
  \<open>snprintf buff n s\<close> with the formatted text \<open>s\<close>: at most \<open>n - 1\<close> bytes are
  stored (nothing when \<open>n\<close> is \<open>0\<close>), the result is the length of \<open>s\<close>.
\<close>

definition snprintf :: "string \<Rightarrow> nat \<Rightarrow> string \<Rightarrow> int \<times> string" where
  "snprintf buff n s = (int (length s), if n = 0 then buff else take (n - 1) s)"

text \<open>
  The index of the table is at most 4 after the clamp, so the lookup is in range.
\<close>

definition wrigley_status_show ::
  "nat \<Rightarrow> wrigley_info \<Rightarrow> string \<Rightarrow> int \<times> string \<times> wrigley_info" where
  "wrigley_status_show max_length info buff =
     (let info1 = (if status info > WRIGLEY_STATUS_UNDEFINED
                   then info\<lparr>status := WRIGLEY_STATUS_UNDEFINED\<rparr> else info)
      in case snprintf buff max_length
                (wrigley_status_str ! unat (status info1) @ [CHR 0x0A]) of
           (n, buff') \<Rightarrow> (n, buff', info1))"

subsection \<open>The reset interrupt\<close>

datatype irqreturn = IRQ_NONE | IRQ_HANDLED | IRQ_WAKE_THREAD

definition wrigley_reset_fn :: "wrigley_info \<Rightarrow> world \<Rightarrow> irqreturn \<times> world" where
  "wrigley_reset_fn info w =
     (let w1 = gpio_direction_output (power_gpio info) False w;
          w2 = (if rdev_dev info then kobject_uevent w1 else w1)
      in (IRQ_HANDLED, w2))"

definition wrigley_reset_isr :: "wrigley_info \<Rightarrow> irqreturn \<times> wrigley_info" where
  "wrigley_reset_isr info =
     (if tcmd_suspended info then (IRQ_HANDLED, info)
      else (IRQ_WAKE_THREAD, info\<lparr>status := WRIGLEY_STATUS_RESETTING\<rparr>))"

text \<open>
  The handlers are registered with \<open>request_threaded_irq\<close>: on a falling edge the kernel
  runs \<open>wrigley_reset_isr\<close> and wakes the thread running \<open>wrigley_reset_fn\<close> exactly
  when the result is \<open>IRQ_WAKE_THREAD\<close>. \<open>reset_irq\<close> is one such edge, handled to the
  end.
\<close>

definition reset_irq :: "wrigley_info \<Rightarrow> world \<Rightarrow> wrigley_info \<times> world" where
  "reset_irq info w =
     (case wrigley_reset_isr info of
        (r, info1) \<Rightarrow>
          if r = IRQ_WAKE_THREAD then (info1, snd (wrigley_reset_fn info1 w))
          else (info1, w))"

subsection \<open>Reboot notifier and shutdown hook\<close>

text \<open>\<open>NOTIFY_DONE\<close> is \<open>0x0000\<close> in the kernel's \<open>notifier.h\<close> ("don't care").\<close>

definition NOTIFY_DONE :: int where "NOTIFY_DONE = 0"

text \<open>The arguments \<open>event\<close> and \<open>ptr\<close> are not used by the function.\<close>

definition wrigley_process_reboot :: "wrigley_info \<Rightarrow> world \<Rightarrow> int \<times> wrigley_info \<times> world" where
  "wrigley_process_reboot info w =
     (let envp = [''WRIGLEY_SHUTDOWN=1''];
          w1 = (if rdev_dev info then kobject_uevent_env envp w else w)
      in case wrigley_do_powerdown info w1 of
           (r, info', w2) \<Rightarrow> (NOTIFY_DONE, info', w2))"

definition wrigley_shutdown :: "wrigley_info \<Rightarrow> world \<Rightarrow> wrigley_info \<times> world" where
  "wrigley_shutdown info w = snd (wrigley_do_powerdown info w)"

subsection \<open>Device attach\<close>

text \<open>
  \<open>struct wrigley_ctrl_platform_data\<close> is declared in a header outside the sources;
  the fields are those \<open>wrigley_probe\<close> reads (\<open>name\<close>, copied to \<open>rdev.name\<close>, is
  left out). \<open>probe_env\<close> holds the results of the kernel calls that can fail.
\<close>

record wrigley_ctrl_platform_data =
  gpio_disable :: gpio
  gpio_reset :: gpio
  gpio_force_flash :: gpio
  gpio_power_enable :: gpio

record probe_env =
  kzalloc_ok :: bool
  gpio_request_err :: "gpio \<Rightarrow> int"
  request_irq_err :: int
  radio_dev_register_err :: int

text \<open>\<open>kzalloc\<close> returns zeroed memory: every field is \<open>0\<close>.\<close>

definition kzalloc_info :: wrigley_info where
  "kzalloc_info =
     \<lparr>disable_gpio = 0, power_gpio = 0, flash_gpio = 0, reset_gpio = 0,
      boot_flash = False, tcmd_suspended = False, status = 0, rdev_dev = False\<rparr>"

definition gpio_request :: "probe_env \<Rightarrow> gpio \<Rightarrow> world \<Rightarrow> int \<times> world" where
  "gpio_request env g w =
     (let err = gpio_request_err env g
      in (err, if err = 0 then emit (GpioRequest g) w else w))"

definition request_threaded_irq :: "probe_env \<Rightarrow> gpio \<Rightarrow> world \<Rightarrow> int \<times> world" where
  "request_threaded_irq env g w =
     (let err = request_irq_err env
      in (err, if err = 0 then emit (IrqRequest g) w else w))"

text \<open>
  Modelled from the spec: \<open>radio_dev_register\<close> belongs to the radio class driver, which
  is not part of the sources; when it succeeds the device registration is active
  (\<open>rdev.dev\<close> is set).
\<close>

definition radio_dev_register ::
  "probe_env \<Rightarrow> wrigley_info \<Rightarrow> world \<Rightarrow> int \<times> wrigley_info \<times> world" where
  "radio_dev_register env info w =
     (let err = radio_dev_register_err env
      in if err = 0 then (err, info\<lparr>rdev_dev := True\<rparr>, emit RadioDevRegister w)
         else (err, info, w))"

text \<open>The labels of the unwinding chain at the end of \<open>wrigley_probe\<close>.\<close>

definition err_reset :: "wrigley_info \<Rightarrow> world \<Rightarrow> world" where
  "err_reset info w = emit (GpioFree (disable_gpio info)) w"

definition err_flash :: "wrigley_info \<Rightarrow> world \<Rightarrow> world" where
  "err_flash info w =
     err_reset info (emit (GpioFree (reset_gpio info)) (emit (IrqFree (reset_gpio info)) w))"

definition err_power :: "wrigley_info \<Rightarrow> world \<Rightarrow> world" where
  "err_power info w = err_flash info (emit (GpioFree (flash_gpio info)) w)"

definition err_dev_register :: "wrigley_info \<Rightarrow> world \<Rightarrow> world" where
  "err_dev_register info w = err_power info (emit (GpioFree (power_gpio info)) w)"

text \<open>
  The result is \<open>Inl err\<close> when the probe fails (the state is freed) and \<open>Inr info\<close>
  when it returns \<open>0\<close>.
\<close>

definition wrigley_probe ::
  "wrigley_ctrl_platform_data \<Rightarrow> probe_env \<Rightarrow> world \<Rightarrow> (int + wrigley_info) \<times> world" where
  "wrigley_probe pdata env w =
     (if \<not> kzalloc_ok env then (Inl (- ENOMEM), w) else
      let info = kzalloc_info\<lparr>disable_gpio := gpio_disable pdata\<rparr> in
      case gpio_request env (disable_gpio info) w of (err, w) \<Rightarrow>
      if err \<noteq> 0 then (Inl err, w) else
      let w = emit (GpioExport (disable_gpio info)) w;
          info = info\<lparr>reset_gpio := gpio_reset pdata\<rparr> in
      case gpio_request env (reset_gpio info) w of (err, w) \<Rightarrow>
      if err \<noteq> 0 then (Inl err, err_reset info w) else
      let w = emit (GpioDirIn (reset_gpio info)) w in
      case request_threaded_irq env (reset_gpio info) w of (err, w) \<Rightarrow>
      if err \<noteq> 0 then (Inl err, err_reset info (emit (GpioFree (reset_gpio info)) w)) else
      let w = emit (GpioExport (reset_gpio info)) w;
          info = info\<lparr>flash_gpio := gpio_force_flash pdata\<rparr> in
      case gpio_request env (flash_gpio info) w of (err, w) \<Rightarrow>
      if err \<noteq> 0 then (Inl err, err_flash info w) else
      let w = emit (GpioExport (flash_gpio info)) w;
          info = info\<lparr>power_gpio := gpio_power_enable pdata\<rparr> in
      case gpio_request env (power_gpio info) w of (err, w) \<Rightarrow>
      if err \<noteq> 0 then (Inl err, err_power info w) else
      let w = emit (GpioExport (power_gpio info)) w;
          w = emit RebootNotifierRegister w in
      case gpio_get_value (flash_gpio info) w of (v, w) \<Rightarrow>
      let info = info\<lparr>boot_flash := v\<rparr> in
      case gpio_get_value (reset_gpio info) w of (v, w) \<Rightarrow>
      let info = (if v then
                    (if boot_flash info then info\<lparr>status := WRIGLEY_STATUS_FLASH\<rparr>
                     else info\<lparr>status := WRIGLEY_STATUS_NORMAL\<rparr>)
                  else info\<lparr>status := WRIGLEY_STATUS_OFF\<rparr>);
          info = info\<lparr>tcmd_suspended := False\<rparr> in
      case radio_dev_register env info w of (err, info, w) \<Rightarrow>
      if err \<noteq> 0 then (Inl err, err_dev_register info w) else (Inr info, w))"

subsection \<open>Runs of the driver\<close>

text \<open>
  After a successful attach the kernel calls into the driver through its entry points:
  a command or a status query from the radio class, the two phases of the reset
  interrupt (the thread may run at any later moment), the reboot notifier and the
  platform shutdown hook. A run is a sequence of such calls, each run to completion.
\<close>

datatype driver_call =
    Command string
  | StatusShow nat string
  | ResetIsr
  | ResetThread
  | Reboot
  | Shutdown

fun exec :: "driver_call \<Rightarrow> wrigley_info \<times> world \<Rightarrow> wrigley_info \<times> world" where
  "exec (Command cmd) (info, w) = snd (wrigley_command info cmd w)"
| "exec (StatusShow n buff) (info, w) = (snd (snd (wrigley_status_show n info buff)), w)"
| "exec ResetIsr (info, w) = (snd (wrigley_reset_isr info), w)"
| "exec ResetThread (info, w) = (info, snd (wrigley_reset_fn info w))"
| "exec Reboot (info, w) = snd (wrigley_process_reboot info w)"
| "exec Shutdown (info, w) = wrigley_shutdown info w"

definition run :: "driver_call list \<Rightarrow> wrigley_info \<times> world \<Rightarrow> wrigley_info \<times> world" where
  "run calls s = fold exec calls s"

text \<open>The invariant of the data model: status \<open>Off\<close> implies POWER and DISABLE low.\<close>

definition off_lines_low :: "wrigley_info \<times> world \<Rightarrow> bool" where
  "off_lines_low s =
     (case s of (info, w) \<Rightarrow>
        status info = WRIGLEY_STATUS_OFF \<longrightarrow>
          \<not> level w (power_gpio info) \<and> \<not> level w (disable_gpio info))"

subsection \<open>Notions used to state the properties\<close>

text \<open>The user-space events of a trace, in order, each with its environment.\<close>

fun uevents :: "event list \<Rightarrow> string list list" where
  "uevents [] = []"
| "uevents (Uevent envp # es) = envp # uevents es"
| "uevents (e # es) = uevents es"

text \<open>
  The status text as the spec words it: one of the tokens \<open>normal\<close>, \<open>flash\<close>,
  \<open>resetting\<close>, \<open>off\<close>, \<open>undefined\<close>, a value outside the defined range being
  treated as Undefined.
\<close>

definition status_token :: "wrigley_status \<Rightarrow> string" where
  "status_token st =
     (if st = WRIGLEY_STATUS_NORMAL then ''normal''
      else if st = WRIGLEY_STATUS_FLASH then ''flash''
      else if st = WRIGLEY_STATUS_RESETTING then ''resetting''
      else if st = WRIGLEY_STATUS_OFF then ''off''
      else ''undefined'')"

subsection \<open>Concrete configurations\<close>

text \<open>
  A board with the lines DISABLE, POWER, FLASH-STRAP and RESET-SENSE on GPIOs 10 to 13,
  and a world in which every line is low and nothing has been sampled yet; they serve
  as concrete inputs below.
\<close>

definition board_info :: "wrigley_status \<Rightarrow> bool \<Rightarrow> bool \<Rightarrow> wrigley_info" where
  "board_info st flash susp =
     \<lparr>disable_gpio = 10, power_gpio = 11, flash_gpio = 12, reset_gpio = 13,
      boot_flash = flash, tcmd_suspended = susp, status = st, rdev_dev = True\<rparr>"

definition all_low :: "gpio \<Rightarrow> bool" where
  "all_low g = False"

definition fresh_world :: "(nat \<Rightarrow> gpio \<Rightarrow> bool) \<Rightarrow> world" where
  "fresh_world s = \<lparr>level = all_low, sense = s, reads = 0, trace = []\<rparr>"

text \<open>Sample streams: always low, always high, high from the \<open>k\<close>-th sample on, low from it on.\<close>

definition always_low :: "nat \<Rightarrow> gpio \<Rightarrow> bool" where
  "always_low n g = False"

definition always_high :: "nat \<Rightarrow> gpio \<Rightarrow> bool" where
  "always_high n g = True"

definition high_from :: "nat \<Rightarrow> nat \<Rightarrow> gpio \<Rightarrow> bool" where
  "high_from k n g = (k \<le> n)"

definition low_from :: "nat \<Rightarrow> nat \<Rightarrow> gpio \<Rightarrow> bool" where
  "low_from k n g = (n < k)"

text \<open>
  The platform data of that board, an attach at which every kernel call succeeds, and a
  world in which DISABLE and POWER were left high before the driver attached while the
  modem holds RESET-SENSE low.
\<close>

definition board_pdata :: wrigley_ctrl_platform_data where
  "board_pdata =
     \<lparr>gpio_disable = 10, gpio_reset = 13, gpio_force_flash = 12, gpio_power_enable = 11\<rparr>"

definition probe_ok :: probe_env where
  "probe_ok =
     \<lparr>kzalloc_ok = True, gpio_request_err = (\<lambda>g. 0), request_irq_err = 0,
      radio_dev_register_err = 0\<rparr>"

definition rails_up :: "gpio \<Rightarrow> bool" where
  "rails_up g = (g = 10 \<or> g = 11)"

definition powered_world :: world where
  "powered_world = \<lparr>level = rails_up, sense = always_low, reads = 0, trace = []\<rparr>"

section \<open>Properties\<close>

lemmas status_defs =
  WRIGLEY_STATUS_NORMAL_def WRIGLEY_STATUS_FLASH_def WRIGLEY_STATUS_RESETTING_def
  WRIGLEY_STATUS_OFF_def WRIGLEY_STATUS_UNDEFINED_def

lemmas kernel_defs =
  emit_def gpio_direction_output_def gpio_get_value_def msleep_def
  kobject_uevent_env_def kobject_uevent_def

declare powerdown_poll.simps [simp del]
declare powerup_poll.simps [simp del]

lemma strcmp_eq [simp]: "strcmp a b = 0 \<longleftrightarrow> a = b"
  by (induction a b rule: strcmp.induct) auto

subsection \<open>The polling loops\<close>

lemma gpio_get_value_eq:
  "gpio_get_value g w =
     (sense w (reads w) g,
      w\<lparr>reads := Suc (reads w), trace := trace w @ [GpioGet g (sense w (reads w) g)]\<rparr>)"
  by (simp add: gpio_get_value_def emit_def Let_def)

lemma msleep_eq: "msleep ms w = w\<lparr>trace := trace w @ [Msleep ms]\<rparr>"
  by (simp add: msleep_def emit_def)

lemma gpio_direction_output_eq:
  "gpio_direction_output g v w =
     w\<lparr>level := (level w)(g := v), trace := trace w @ [GpioOut g v]\<rparr>"
  by (simp add: gpio_direction_output_def emit_def)

lemmas poll_step = gpio_get_value_eq msleep_eq

text \<open>
  Power-up loop, first high sample at the \<open>k\<close>-th read counted from the current one:
  \<open>k\<close> low samples, each followed by a sleep, then the high sample; \<open>err\<close> becomes 0.
\<close>

lemma powerup_poll_high:
  "k < 10 - i \<Longrightarrow> \<forall>j<k. \<not> sense w (reads w + j) (reset_gpio info) \<Longrightarrow>
   sense w (reads w + k) (reset_gpio info) \<Longrightarrow>
   powerup_poll i err info w =
     (0, w\<lparr>reads := reads w + Suc k,
           trace := trace w @ concat (replicate k [GpioGet (reset_gpio info) False, Msleep 400])
                      @ [GpioGet (reset_gpio info) True]\<rparr>)"
proof (induction k arbitrary: i w)
  case 0
  then show ?case
    by (subst powerup_poll.simps) (simp add: poll_step)
next
  case (Suc k)
  let ?g = "reset_gpio info"
  let ?w' = "msleep 400 (snd (gpio_get_value ?g w))"
  from Suc.prems(2) have low: "\<not> sense w (reads w) ?g"
    by (drule_tac x = 0 in spec) simp
  have lt: "i < 10" using Suc.prems(1) by arith
  have a: "k < 10 - Suc i" using Suc.prems by simp
  have b: "\<forall>j<k. \<not> sense ?w' (reads ?w' + j) ?g"
  proof (intro allI impI)
    fix j assume "j < k"
    then have "\<not> sense w (reads w + Suc j) ?g"
      using Suc.prems(2) by (drule_tac x = "Suc j" in spec) simp
    then show "\<not> sense ?w' (reads ?w' + j) ?g" by (simp add: poll_step)
  qed
  have c: "sense ?w' (reads ?w' + k) ?g"
    using Suc.prems(3) by (simp add: poll_step)
  have "powerup_poll i err info w = powerup_poll (Suc i) err info ?w'"
    using lt low by (subst powerup_poll.simps) (simp add: poll_step)
  also have "\<dots> = (0, ?w'\<lparr>reads := reads ?w' + Suc k,
           trace := trace ?w' @ concat (replicate k [GpioGet ?g False, Msleep 400])
                      @ [GpioGet ?g True]\<rparr>)"
    by (rule Suc.IH [OF a b c])
  also have "\<dots> = (0, w\<lparr>reads := reads w + Suc (Suc k),
           trace := trace w @ concat (replicate (Suc k) [GpioGet ?g False, Msleep 400])
                      @ [GpioGet ?g True]\<rparr>)"
    using low by (simp add: poll_step)
  finally show ?case .
qed

text \<open>Power-up loop, every remaining sample low: the loop runs out, \<open>err\<close> is kept.\<close>

lemma powerup_poll_low:
  "n = 10 - i \<Longrightarrow> \<forall>j<n. \<not> sense w (reads w + j) (reset_gpio info) \<Longrightarrow>
   powerup_poll i err info w =
     (err, w\<lparr>reads := reads w + n,
           trace := trace w @ concat (replicate n [GpioGet (reset_gpio info) False, Msleep 400])\<rparr>)"
proof (induction n arbitrary: i w)
  case 0
  then show ?case
    by (subst powerup_poll.simps) simp
next
  case (Suc n)
  let ?g = "reset_gpio info"
  let ?w' = "msleep 400 (snd (gpio_get_value ?g w))"
  from Suc.prems(2) have low: "\<not> sense w (reads w) ?g"
    by (drule_tac x = 0 in spec) simp
  have lt: "i < 10" using Suc.prems(1) by arith
  have a: "n = 10 - Suc i" using Suc.prems by simp
  have b: "\<forall>j<n. \<not> sense ?w' (reads ?w' + j) ?g"
  proof (intro allI impI)
    fix j assume "j < n"
    then have "\<not> sense w (reads w + Suc j) ?g"
      using Suc.prems(1,2) by (drule_tac x = "Suc j" in spec) simp
    then show "\<not> sense ?w' (reads ?w' + j) ?g" by (simp add: poll_step)
  qed
  have "powerup_poll i err info w = powerup_poll (Suc i) err info ?w'"
    using lt low by (subst powerup_poll.simps) (simp add: poll_step)
  also have "\<dots> = (err, ?w'\<lparr>reads := reads ?w' + n,
           trace := trace ?w' @ concat (replicate n [GpioGet ?g False, Msleep 400])\<rparr>)"
    by (rule Suc.IH [OF a b])
  also have "\<dots> = (err, w\<lparr>reads := reads w + Suc n,
           trace := trace w @ concat (replicate (Suc n) [GpioGet ?g False, Msleep 400])\<rparr>)"
    using low by (simp add: poll_step)
  finally show ?case .
qed

text \<open>The power-down loop, with the polarity of the test reversed.\<close>

lemma powerdown_poll_low:
  "k < 10 - i \<Longrightarrow> \<forall>j<k. sense w (reads w + j) (reset_gpio info) \<Longrightarrow>
   \<not> sense w (reads w + k) (reset_gpio info) \<Longrightarrow>
   powerdown_poll i info w =
     w\<lparr>reads := reads w + Suc k,
       trace := trace w @ concat (replicate k [GpioGet (reset_gpio info) True, Msleep 400])
                  @ [GpioGet (reset_gpio info) False]\<rparr>"
proof (induction k arbitrary: i w)
  case 0
  then show ?case
    by (subst powerdown_poll.simps) (simp add: poll_step)
next
  case (Suc k)
  let ?g = "reset_gpio info"
  let ?w' = "msleep 400 (snd (gpio_get_value ?g w))"
  from Suc.prems(2) have high: "sense w (reads w) ?g"
    by (drule_tac x = 0 in spec) simp
  have lt: "i < 10" using Suc.prems(1) by arith
  have a: "k < 10 - Suc i" using Suc.prems by simp
  have b: "\<forall>j<k. sense ?w' (reads ?w' + j) ?g"
  proof (intro allI impI)
    fix j assume "j < k"
    then have "sense w (reads w + Suc j) ?g"
      using Suc.prems(2) by (drule_tac x = "Suc j" in spec) simp
    then show "sense ?w' (reads ?w' + j) ?g" by (simp add: poll_step)
  qed
  have c: "\<not> sense ?w' (reads ?w' + k) ?g"
    using Suc.prems(3) by (simp add: poll_step)
  have "powerdown_poll i info w = powerdown_poll (Suc i) info ?w'"
    using lt high by (subst powerdown_poll.simps) (simp add: poll_step)
  also have "\<dots> = ?w'\<lparr>reads := reads ?w' + Suc k,
           trace := trace ?w' @ concat (replicate k [GpioGet ?g True, Msleep 400])
                      @ [GpioGet ?g False]\<rparr>"
    by (rule Suc.IH [OF a b c])
  also have "\<dots> = w\<lparr>reads := reads w + Suc (Suc k),
           trace := trace w @ concat (replicate (Suc k) [GpioGet ?g True, Msleep 400])
                      @ [GpioGet ?g False]\<rparr>"
    using high by (simp add: poll_step)
  finally show ?case .
qed

lemma powerdown_poll_high:
  "n = 10 - i \<Longrightarrow> \<forall>j<n. sense w (reads w + j) (reset_gpio info) \<Longrightarrow>
   powerdown_poll i info w =
     w\<lparr>reads := reads w + n,
       trace := trace w @ concat (replicate n [GpioGet (reset_gpio info) True, Msleep 400])\<rparr>"
proof (induction n arbitrary: i w)
  case 0
  then show ?case
    by (subst powerdown_poll.simps) simp
next
  case (Suc n)
  let ?g = "reset_gpio info"
  let ?w' = "msleep 400 (snd (gpio_get_value ?g w))"
  from Suc.prems(2) have high: "sense w (reads w) ?g"
    by (drule_tac x = 0 in spec) simp
  have lt: "i < 10" using Suc.prems(1) by arith
  have a: "n = 10 - Suc i" using Suc.prems by simp
  have b: "\<forall>j<n. sense ?w' (reads ?w' + j) ?g"
  proof (intro allI impI)
    fix j assume "j < n"
    then have "sense w (reads w + Suc j) ?g"
      using Suc.prems(1,2) by (drule_tac x = "Suc j" in spec) simp
    then show "sense ?w' (reads ?w' + j) ?g" by (simp add: poll_step)
  qed
  have "powerdown_poll i info w = powerdown_poll (Suc i) info ?w'"
    using lt high by (subst powerdown_poll.simps) (simp add: poll_step)
  also have "\<dots> = ?w'\<lparr>reads := reads ?w' + n,
           trace := trace ?w' @ concat (replicate n [GpioGet ?g True, Msleep 400])\<rparr>"
    by (rule Suc.IH [OF a b])
  also have "\<dots> = w\<lparr>reads := reads w + Suc n,
           trace := trace w @ concat (replicate (Suc n) [GpioGet ?g True, Msleep 400])\<rparr>"
    using high by (simp add: poll_step)
  finally show ?case .
qed

text \<open>
  Among the next \<open>n\<close> samples either there is a first one for which \<open>P\<close> holds, or
  \<open>P\<close> fails for all of them.
\<close>

lemma first_sample:
  fixes P :: "nat \<Rightarrow> bool"
  shows "(\<exists>k<n. (\<forall>j<k. \<not> P j) \<and> P k) \<or> (\<forall>j<n. \<not> P j)"
proof (cases "\<exists>j<n. P j")
  case True
  then obtain j where j: "j < n" "P j" by blast
  let ?k = "LEAST j. P j"
  have 1: "P ?k" using j(2) by (rule LeastI)
  have 2: "?k \<le> j" using j(2) by (rule Least_le)
  have 3: "\<forall>i<?k. \<not> P i" by (intro allI impI) (rule not_less_Least)
  have 4: "?k < n" using 2 j(1) by (rule le_less_trans)
  show ?thesis by (rule disjI1, rule exI [of _ ?k]) (intro conjI 4 3 1)
next
  case False
  then show ?thesis by blast
qed

subsection \<open>Power up while already on\<close>

text \<open>
  Claim C4. When the status is Normal or Flash, \<open>wrigley_do_powerup\<close> returns \<open>-1\<close>
  (already powered on) and changes nothing: the controller state (status, boot mode,
  suspend flag) and the world (the levels of all lines, the samples taken, the calls
  made to the kernel) are those it was called with.
\<close>

theorem powerup_already_on:
  assumes "status info = WRIGLEY_STATUS_NORMAL \<or> status info = WRIGLEY_STATUS_FLASH"
  shows "wrigley_do_powerup info w = (- 1, info, w)"
  using assms by (auto simp: wrigley_do_powerup_def)

theorem powerup_already_on_witness:
  "status (board_info WRIGLEY_STATUS_FLASH True False) = WRIGLEY_STATUS_FLASH \<and>
   wrigley_do_powerup (board_info WRIGLEY_STATUS_FLASH True False) (fresh_world always_high)
     = (- 1, board_info WRIGLEY_STATUS_FLASH True False, fresh_world always_high)"
  using powerup_already_on [of "board_info WRIGLEY_STATUS_FLASH True False"
      "fresh_world always_high"]
  by (simp add: board_info_def)

subsection \<open>Power down when already off\<close>

text \<open>
  Claim C5. When the status is Off, \<open>wrigley_do_powerdown\<close> returns \<open>0\<close> and changes
  nothing (no line is written, the status stays Off). Hence from any state, a first call
  returns \<open>0\<close> and leaves the status Off, and a second call right after it returns \<open>0\<close>
  again and changes nothing.
\<close>

theorem powerdown_idempotent:
  "(status info = WRIGLEY_STATUS_OFF \<longrightarrow> wrigley_do_powerdown info w = (0, info, w)) \<and>
   (case wrigley_do_powerdown info w of
      (r1, info1, w1) \<Rightarrow>
        r1 = 0 \<and> status info1 = WRIGLEY_STATUS_OFF \<and>
        wrigley_do_powerdown info1 w1 = (0, info1, w1))"
  by (simp add: wrigley_do_powerdown_def Let_def)

theorem powerdown_idempotent_witness:
  "status (board_info WRIGLEY_STATUS_OFF False False) = WRIGLEY_STATUS_OFF \<and>
   wrigley_do_powerdown (board_info WRIGLEY_STATUS_OFF False False) (fresh_world always_low)
     = (0, board_info WRIGLEY_STATUS_OFF False False, fresh_world always_low)"
  using powerdown_idempotent [of "board_info WRIGLEY_STATUS_OFF False False"
      "fresh_world always_low"]
  by (simp add: board_info_def)

subsection \<open>The reset interrupt and the suspend flag\<close>

text \<open>
  Claim C3. The fast phase \<open>wrigley_reset_isr\<close>: when \<open>tcmd_suspended\<close> is set it
  returns \<open>IRQ_HANDLED\<close> with the state unchanged, so the thread is not woken, and the
  whole interrupt leaves state and world as they were (no status change, no line write,
  no user-space event); when the flag is clear it sets the status to Resetting and
  returns \<open>IRQ_WAKE_THREAD\<close>, so the deferred phase \<open>wrigley_reset_fn\<close> runs.
\<close>

theorem reset_isr_suspend_filter:
  "(tcmd_suspended info \<longrightarrow>
      wrigley_reset_isr info = (IRQ_HANDLED, info) \<and> reset_irq info w = (info, w)) \<and>
   (\<not> tcmd_suspended info \<longrightarrow>
      wrigley_reset_isr info = (IRQ_WAKE_THREAD, info\<lparr>status := WRIGLEY_STATUS_RESETTING\<rparr>) \<and>
      reset_irq info w =
        (info\<lparr>status := WRIGLEY_STATUS_RESETTING\<rparr>,
         snd (wrigley_reset_fn (info\<lparr>status := WRIGLEY_STATUS_RESETTING\<rparr>) w)))"
  by (simp add: wrigley_reset_isr_def reset_irq_def)

theorem reset_isr_suspend_filter_witness:
  "tcmd_suspended (board_info WRIGLEY_STATUS_NORMAL False True) \<and>
   reset_irq (board_info WRIGLEY_STATUS_NORMAL False True) (fresh_world always_low)
     = (board_info WRIGLEY_STATUS_NORMAL False True, fresh_world always_low) \<and>
   \<not> tcmd_suspended (board_info WRIGLEY_STATUS_NORMAL False False) \<and>
   status (fst (reset_irq (board_info WRIGLEY_STATUS_NORMAL False False)
     (fresh_world always_low))) = WRIGLEY_STATUS_RESETTING \<and>
   trace (snd (reset_irq (board_info WRIGLEY_STATUS_NORMAL False False)
     (fresh_world always_low))) = [GpioOut 11 False, Uevent []]"
  using reset_isr_suspend_filter [of "board_info WRIGLEY_STATUS_NORMAL False True"
      "fresh_world always_low"]
    reset_isr_suspend_filter [of "board_info WRIGLEY_STATUS_NORMAL False False"
      "fresh_world always_low"]
  by (simp add: board_info_def fresh_world_def wrigley_reset_fn_def kernel_defs)

subsection \<open>Command dispatch\<close>

text \<open>
  Claim C6. \<open>wrigley_command\<close> dispatches on the exact strings: \<open>shutdown\<close> runs
  \<open>wrigley_do_powerdown\<close>, \<open>powerup\<close> runs \<open>wrigley_do_powerup\<close>, \<open>bootmode_normal\<close>
  and \<open>bootmode_flash\<close> run \<open>wrigley_set_flash_mode\<close> with false and true, \<open>suspend\<close>
  sets the suspend flag and returns 0. For every other string the result is \<open>-EINVAL\<close>
  and the state (status, boot mode, suspend flag) and the world are unchanged.
\<close>

theorem command_dispatch:
  "wrigley_command info ''shutdown'' w = wrigley_do_powerdown info w \<and>
   wrigley_command info ''powerup'' w = wrigley_do_powerup info w \<and>
   wrigley_command info ''bootmode_normal'' w =
     (fst (wrigley_set_flash_mode info False), snd (wrigley_set_flash_mode info False), w) \<and>
   wrigley_command info ''bootmode_flash'' w =
     (fst (wrigley_set_flash_mode info True), snd (wrigley_set_flash_mode info True), w) \<and>
   snd (wrigley_set_flash_mode info enable) = info\<lparr>boot_flash := enable\<rparr> \<and>
   wrigley_command info ''suspend'' w = (0, info\<lparr>tcmd_suspended := True\<rparr>, w) \<and>
   (cmd \<notin> {''shutdown'', ''powerup'', ''bootmode_normal'', ''bootmode_flash'', ''suspend''} \<longrightarrow>
      wrigley_command info cmd w = (- EINVAL, info, w))"
  by (simp add: wrigley_command_def wrigley_set_flash_mode_def)

theorem command_dispatch_witness:
  "''resume'' \<notin> {''shutdown'', ''powerup'', ''bootmode_normal'', ''bootmode_flash'', ''suspend''} \<and>
   wrigley_command (board_info WRIGLEY_STATUS_NORMAL False True) ''resume''
       (fresh_world always_low)
     = (- 22, board_info WRIGLEY_STATUS_NORMAL False True, fresh_world always_low) \<and>
   wrigley_command (board_info WRIGLEY_STATUS_NORMAL False True) ''Shutdown''
       (fresh_world always_low)
     = (- 22, board_info WRIGLEY_STATUS_NORMAL False True, fresh_world always_low)"
  using command_dispatch [of "board_info WRIGLEY_STATUS_NORMAL False True"
      "fresh_world always_low" True "''resume''"]
    command_dispatch [of "board_info WRIGLEY_STATUS_NORMAL False True"
      "fresh_world always_low" True "''Shutdown''"]
  by (simp add: EINVAL_def)

subsection \<open>Power up\<close>

text \<open>
  What \<open>wrigley_do_powerup\<close> does from a status that is neither Normal nor Flash, by
  the outcome of the polling loop.
\<close>

lemma powerup_unfold:
  assumes "status info \<noteq> WRIGLEY_STATUS_NORMAL" and "status info \<noteq> WRIGLEY_STATUS_FLASH"
  shows "wrigley_do_powerup info w =
      (case powerup_poll 0 (- 1) info
              (w\<lparr>level := (level w)(flash_gpio info := boot_flash info,
                     disable_gpio info := True, power_gpio info := True),
                 trace := trace w @ [GpioOut (flash_gpio info) (boot_flash info),
                     GpioOut (disable_gpio info) True, GpioOut (power_gpio info) True]\<rparr>) of
         (err', w4) \<Rightarrow>
           if err' = 0
           then (err', info\<lparr>status := (if boot_flash info then WRIGLEY_STATUS_FLASH
                                         else WRIGLEY_STATUS_NORMAL)\<rparr>, w4)
           else (err', info\<lparr>status := WRIGLEY_STATUS_UNDEFINED\<rparr>, w4))"
  using assms
  by (simp add: wrigley_do_powerup_def Let_def gpio_direction_output_eq split: prod.split)

lemma powerup_high:
  assumes "status info \<noteq> WRIGLEY_STATUS_NORMAL" and "status info \<noteq> WRIGLEY_STATUS_FLASH"
    and k: "k < 10" and lo: "\<forall>j<k. \<not> sense w (reads w + j) (reset_gpio info)"
    and hi: "sense w (reads w + k) (reset_gpio info)"
  shows "wrigley_do_powerup info w =
          (0, info\<lparr>status := (if boot_flash info then WRIGLEY_STATUS_FLASH
                               else WRIGLEY_STATUS_NORMAL)\<rparr>,
           w\<lparr>level := (level w)(flash_gpio info := boot_flash info,
                  disable_gpio info := True, power_gpio info := True),
             reads := reads w + Suc k,
             trace := trace w @ [GpioOut (flash_gpio info) (boot_flash info),
                  GpioOut (disable_gpio info) True, GpioOut (power_gpio info) True]
               @ concat (replicate k [GpioGet (reset_gpio info) False, Msleep 400])
               @ [GpioGet (reset_gpio info) True]\<rparr>)"
proof -
  let ?w3 = "w\<lparr>level := (level w)(flash_gpio info := boot_flash info,
                     disable_gpio info := True, power_gpio info := True),
                 trace := trace w @ [GpioOut (flash_gpio info) (boot_flash info),
                     GpioOut (disable_gpio info) True, GpioOut (power_gpio info) True]\<rparr>"
  have "powerup_poll 0 (- 1) info ?w3 =
      (0, ?w3\<lparr>reads := reads ?w3 + Suc k,
         trace := trace ?w3 @ concat (replicate k [GpioGet (reset_gpio info) False, Msleep 400])
                    @ [GpioGet (reset_gpio info) True]\<rparr>)"
    using k lo hi by (intro powerup_poll_high) simp_all
  then show ?thesis by (simp add: powerup_unfold [OF assms(1,2)])
qed

lemma powerup_low:
  assumes "status info \<noteq> WRIGLEY_STATUS_NORMAL" and "status info \<noteq> WRIGLEY_STATUS_FLASH"
    and lo: "\<forall>j<10. \<not> sense w (reads w + j) (reset_gpio info)"
  shows "wrigley_do_powerup info w =
          (- 1, info\<lparr>status := WRIGLEY_STATUS_UNDEFINED\<rparr>,
           w\<lparr>level := (level w)(flash_gpio info := boot_flash info,
                  disable_gpio info := True, power_gpio info := True),
             reads := reads w + 10,
             trace := trace w @ [GpioOut (flash_gpio info) (boot_flash info),
                  GpioOut (disable_gpio info) True, GpioOut (power_gpio info) True]
               @ concat (replicate 10 [GpioGet (reset_gpio info) False, Msleep 400])\<rparr>)"
proof -
  let ?w3 = "w\<lparr>level := (level w)(flash_gpio info := boot_flash info,
                     disable_gpio info := True, power_gpio info := True),
                 trace := trace w @ [GpioOut (flash_gpio info) (boot_flash info),
                     GpioOut (disable_gpio info) True, GpioOut (power_gpio info) True]\<rparr>"
  have "powerup_poll 0 (- 1) info ?w3 =
      (- 1, ?w3\<lparr>reads := reads ?w3 + 10,
         trace := trace ?w3 @ concat (replicate 10 [GpioGet (reset_gpio info) False, Msleep 400])\<rparr>)"
    using lo by (intro powerup_poll_low) simp_all
  then show ?thesis by (simp add: powerup_unfold [OF assms(1,2)])
qed

text \<open>The return value and the new status in terms of the ten samples.\<close>

lemma powerup_result:
  assumes "status info \<noteq> WRIGLEY_STATUS_NORMAL" and "status info \<noteq> WRIGLEY_STATUS_FLASH"
  shows "fst (wrigley_do_powerup info w) =
           (if \<exists>j<10. sense w (reads w + j) (reset_gpio info) then 0 else - 1)"
    and "fst (snd (wrigley_do_powerup info w)) =
           info\<lparr>status :=
             (if \<exists>j<10. sense w (reads w + j) (reset_gpio info)
              then (if boot_flash info then WRIGLEY_STATUS_FLASH else WRIGLEY_STATUS_NORMAL)
              else WRIGLEY_STATUS_UNDEFINED)\<rparr>"
proof -
  from first_sample [of 10 "\<lambda>j. sense w (reads w + j) (reset_gpio info)"]
  consider k where "k < 10" "\<forall>j<k. \<not> sense w (reads w + j) (reset_gpio info)"
      "sense w (reads w + k) (reset_gpio info)"
    | "\<forall>j<10. \<not> sense w (reads w + j) (reset_gpio info)"
    by auto
  then have "fst (wrigley_do_powerup info w) =
           (if \<exists>j<10. sense w (reads w + j) (reset_gpio info) then 0 else - 1) \<and>
         fst (snd (wrigley_do_powerup info w)) =
           info\<lparr>status :=
             (if \<exists>j<10. sense w (reads w + j) (reset_gpio info)
              then (if boot_flash info then WRIGLEY_STATUS_FLASH else WRIGLEY_STATUS_NORMAL)
              else WRIGLEY_STATUS_UNDEFINED)\<rparr>"
  proof cases
    case 1
    have ex: "\<exists>j<10. sense w (reads w + j) (reset_gpio info)" using 1(1,3) by blast
    show ?thesis unfolding powerup_high [OF assms 1] if_P [OF ex] by simp
  next
    case 2
    have nex: "\<not> (\<exists>j<10. sense w (reads w + j) (reset_gpio info))" using 2 by blast
    show ?thesis unfolding powerup_low [OF assms 2] if_not_P [OF nex] by simp
  qed
  then show "fst (wrigley_do_powerup info w) =
           (if \<exists>j<10. sense w (reads w + j) (reset_gpio info) then 0 else - 1)"
    and "fst (snd (wrigley_do_powerup info w)) =
           info\<lparr>status :=
             (if \<exists>j<10. sense w (reads w + j) (reset_gpio info)
              then (if boot_flash info then WRIGLEY_STATUS_FLASH else WRIGLEY_STATUS_NORMAL)
              else WRIGLEY_STATUS_UNDEFINED)\<rparr>"
    by simp_all
qed

text \<open>
  Claim C1. From every state whose status is neither Normal nor Flash,
  \<open>wrigley_do_powerup\<close> first drives the flash strap to \<open>boot_flash\<close>, then DISABLE
  high, then POWER high, and then samples the reset line at least once and at most ten
  times, sleeping 400 ms after each low sample.
  If the first high sample is the \<open>k\<close>-th (\<open>k < 10\<close>, counted from 0) the loop stops
  there and the call returns \<open>0\<close> with the status Flash when \<open>boot_flash\<close> is set and
  Normal otherwise; so it does whenever one of the ten samples would read high.
  If all ten samples read low the call returns \<open>-1\<close> with the status Undefined.
  Nothing else of the state changes.
\<close>

theorem powerup_sequence:
  fixes info :: wrigley_info and w :: world
  assumes "status info \<noteq> WRIGLEY_STATUS_NORMAL" and "status info \<noteq> WRIGLEY_STATUS_FLASH"
  defines "g \<equiv> reset_gpio info"
  defines "driven \<equiv> (level w)(flash_gpio info := boot_flash info,
                      disable_gpio info := True, power_gpio info := True)"
  defines "writes \<equiv> [GpioOut (flash_gpio info) (boot_flash info),
                      GpioOut (disable_gpio info) True, GpioOut (power_gpio info) True]"
  defines "on \<equiv> (if boot_flash info then WRIGLEY_STATUS_FLASH else WRIGLEY_STATUS_NORMAL)"
  shows
    "(\<forall>k<10. (\<forall>j<k. \<not> sense w (reads w + j) g) \<and> sense w (reads w + k) g \<longrightarrow>
        wrigley_do_powerup info w =
          (0, info\<lparr>status := on\<rparr>,
           w\<lparr>level := driven, reads := reads w + Suc k,
             trace := trace w @ writes @ concat (replicate k [GpioGet g False, Msleep 400])
                        @ [GpioGet g True]\<rparr>)) \<and>
     ((\<exists>j<10. sense w (reads w + j) g) \<longrightarrow>
        fst (wrigley_do_powerup info w) = 0 \<and>
        fst (snd (wrigley_do_powerup info w)) = info\<lparr>status := on\<rparr>) \<and>
     ((\<forall>j<10. \<not> sense w (reads w + j) g) \<longrightarrow>
        wrigley_do_powerup info w =
          (- 1, info\<lparr>status := WRIGLEY_STATUS_UNDEFINED\<rparr>,
           w\<lparr>level := driven, reads := reads w + 10,
             trace := trace w @ writes @ concat (replicate 10 [GpioGet g False, Msleep 400])\<rparr>))"
proof (intro conjI allI impI)
  fix k assume "k < 10"
    and "(\<forall>j<k. \<not> sense w (reads w + j) g) \<and> sense w (reads w + k) g"
  then show "wrigley_do_powerup info w =
          (0, info\<lparr>status := on\<rparr>,
           w\<lparr>level := driven, reads := reads w + Suc k,
             trace := trace w @ writes @ concat (replicate k [GpioGet g False, Msleep 400])
                        @ [GpioGet g True]\<rparr>)"
    using powerup_high [OF assms(1,2), of k w]
    by (simp add: g_def driven_def writes_def on_def)
next
  assume ex: "\<exists>j<10. sense w (reads w + j) g"
  then show "fst (wrigley_do_powerup info w) = 0"
    using powerup_result(1) [OF assms(1,2), of w] by (simp add: g_def)
  from ex show "fst (snd (wrigley_do_powerup info w)) = info\<lparr>status := on\<rparr>"
    using powerup_result(2) [OF assms(1,2), of w] by (simp add: g_def on_def)
next
  assume "\<forall>j<10. \<not> sense w (reads w + j) g"
  then show "wrigley_do_powerup info w =
          (- 1, info\<lparr>status := WRIGLEY_STATUS_UNDEFINED\<rparr>,
           w\<lparr>level := driven, reads := reads w + 10,
             trace := trace w @ writes @ concat (replicate 10 [GpioGet g False, Msleep 400])\<rparr>)"
    using powerup_low [OF assms(1,2), of w]
    by (simp add: g_def driven_def writes_def)
qed

theorem powerup_sequence_witness:
  "status (board_info WRIGLEY_STATUS_OFF True False) \<noteq> WRIGLEY_STATUS_NORMAL \<and>
   status (board_info WRIGLEY_STATUS_OFF True False) \<noteq> WRIGLEY_STATUS_FLASH \<and>
   wrigley_do_powerup (board_info WRIGLEY_STATUS_OFF True False) (fresh_world (high_from 2))
     = (0, board_info WRIGLEY_STATUS_FLASH True False,
        \<lparr>level = all_low(12 := True, 10 := True, 11 := True),
         sense = high_from 2, reads = 3,
         trace = [GpioOut 12 True, GpioOut 10 True, GpioOut 11 True,
                  GpioGet 13 False, Msleep 400, GpioGet 13 False, Msleep 400,
                  GpioGet 13 True]\<rparr>) \<and>
   status (board_info WRIGLEY_STATUS_RESETTING False False) \<noteq> WRIGLEY_STATUS_NORMAL \<and>
   status (board_info WRIGLEY_STATUS_RESETTING False False) \<noteq> WRIGLEY_STATUS_FLASH \<and>
   fst (wrigley_do_powerup (board_info WRIGLEY_STATUS_RESETTING False False)
          (fresh_world always_low)) = - 1 \<and>
   fst (snd (wrigley_do_powerup (board_info WRIGLEY_STATUS_RESETTING False False)
          (fresh_world always_low))) = board_info WRIGLEY_STATUS_UNDEFINED False False \<and>
   reads (snd (snd (wrigley_do_powerup (board_info WRIGLEY_STATUS_RESETTING False False)
          (fresh_world always_low)))) = 10"
proof -
  let ?i = "board_info WRIGLEY_STATUS_OFF True False"
  let ?w = "fresh_world (high_from 2)"
  let ?i' = "board_info WRIGLEY_STATUS_RESETTING False False"
  let ?w' = "fresh_world always_low"
  have a: "status ?i \<noteq> WRIGLEY_STATUS_NORMAL" "status ?i \<noteq> WRIGLEY_STATUS_FLASH"
    by (simp_all add: board_info_def status_defs)
  have a': "status ?i' \<noteq> WRIGLEY_STATUS_NORMAL" "status ?i' \<noteq> WRIGLEY_STATUS_FLASH"
    by (simp_all add: board_info_def status_defs)
  have up: "wrigley_do_powerup ?i ?w
     = (0, board_info WRIGLEY_STATUS_FLASH True False,
        \<lparr>level = all_low(12 := True, 10 := True, 11 := True),
         sense = high_from 2, reads = 3,
         trace = [GpioOut 12 True, GpioOut 10 True, GpioOut 11 True,
                  GpioGet 13 False, Msleep 400, GpioGet 13 False, Msleep 400,
                  GpioGet 13 True]\<rparr>)"
    using powerup_sequence [OF a, of ?w, THEN conjunct1, rule_format, of 2]
    by (simp add: board_info_def fresh_world_def high_from_def numeral_2_eq_2)
  have fail: "wrigley_do_powerup ?i' ?w' =
      (- 1, ?i'\<lparr>status := WRIGLEY_STATUS_UNDEFINED\<rparr>,
           ?w'\<lparr>level := (level ?w')(flash_gpio ?i' := boot_flash ?i',
                      disable_gpio ?i' := True, power_gpio ?i' := True),
             reads := reads ?w' + 10,
             trace := trace ?w' @ [GpioOut (flash_gpio ?i') (boot_flash ?i'),
                      GpioOut (disable_gpio ?i') True, GpioOut (power_gpio ?i') True]
                 @ concat (replicate 10 [GpioGet (reset_gpio ?i') False, Msleep 400])\<rparr>)"
    using powerup_sequence [OF a', of ?w', THEN conjunct2, THEN conjunct2]
    by (simp add: fresh_world_def always_low_def)
  show ?thesis
    unfolding up fail using a a' by (simp add: board_info_def fresh_world_def)
qed

subsection \<open>Power down\<close>

text \<open>
  The attach of the example board in the world where the rails were left high succeeds
  and infers status Off from the low reset line, without driving any line.
\<close>

lemma probe_powered_world:
  "wrigley_probe board_pdata probe_ok powered_world =
     (Inr (board_info WRIGLEY_STATUS_OFF False False),
      powered_world\<lparr>reads := 2,
        trace := [GpioRequest 10, GpioExport 10, GpioRequest 13, GpioDirIn 13, IrqRequest 13,
                  GpioExport 13, GpioRequest 12, GpioExport 12, GpioRequest 11, GpioExport 11,
                  RebootNotifierRegister, GpioGet 12 False, GpioGet 13 False,
                  RadioDevRegister]\<rparr>)"
  by (simp add: wrigley_probe_def board_pdata_def probe_ok_def powered_world_def
      kzalloc_info_def gpio_request_def request_threaded_irq_def radio_dev_register_def
      gpio_get_value_eq emit_def always_low_def board_info_def Let_def)

text \<open>
  Claim C2, as amended. \<open>wrigley_do_powerdown\<close> always returns \<open>0\<close> and always ends
  with the status Off. From a status other than Off it drives DISABLE low, samples the
  reset line between one and ten times, drives POWER low and sets the status to Off,
  whether a sample read low (the loop stops at the first one) or all ten read high; at
  the end POWER and DISABLE are low. From the status Off it changes nothing, so the
  lines stay as they were.
\<close>

theorem powerdown_outcome:
  fixes info :: wrigley_info and w :: world
  defines "g \<equiv> reset_gpio info"
  defines "lowered \<equiv> (level w)(disable_gpio info := False, power_gpio info := False)"
  defines "res \<equiv> wrigley_do_powerdown info w"
  shows
    "fst res = 0 \<and> status (fst (snd res)) = WRIGLEY_STATUS_OFF \<and>
     (status info = WRIGLEY_STATUS_OFF \<longrightarrow> res = (0, info, w)) \<and>
     (status info \<noteq> WRIGLEY_STATUS_OFF \<longrightarrow>
        (\<forall>k<10. (\<forall>j<k. sense w (reads w + j) g) \<and> \<not> sense w (reads w + k) g \<longrightarrow>
           res = (0, info\<lparr>status := WRIGLEY_STATUS_OFF\<rparr>,
                  w\<lparr>level := lowered, reads := reads w + Suc k,
                    trace := trace w @ [GpioOut (disable_gpio info) False]
                      @ concat (replicate k [GpioGet g True, Msleep 400])
                      @ [GpioGet g False, GpioOut (power_gpio info) False]\<rparr>)) \<and>
        ((\<forall>j<10. sense w (reads w + j) g) \<longrightarrow>
           res = (0, info\<lparr>status := WRIGLEY_STATUS_OFF\<rparr>,
                  w\<lparr>level := lowered, reads := reads w + 10,
                    trace := trace w @ [GpioOut (disable_gpio info) False]
                      @ concat (replicate 10 [GpioGet g True, Msleep 400])
                      @ [GpioOut (power_gpio info) False]\<rparr>)) \<and>
        fst (snd res) = info\<lparr>status := WRIGLEY_STATUS_OFF\<rparr> \<and>
        level (snd (snd res)) = lowered \<and>
        \<not> level (snd (snd res)) (power_gpio info) \<and>
        \<not> level (snd (snd res)) (disable_gpio info))"
proof -
  let ?w1 = "w\<lparr>level := (level w)(disable_gpio info := False),
               trace := trace w @ [GpioOut (disable_gpio info) False]\<rparr>"
  have basic: "fst res = 0" "status (fst (snd res)) = WRIGLEY_STATUS_OFF"
    by (simp_all add: res_def wrigley_do_powerdown_def Let_def)
  have off: "res = (0, info, w)" if "status info = WRIGLEY_STATUS_OFF"
    using that by (simp add: res_def wrigley_do_powerdown_def)
  have unfold: "res = (0, info\<lparr>status := WRIGLEY_STATUS_OFF\<rparr>,
      gpio_direction_output (power_gpio info) False (powerdown_poll 0 info ?w1))"
    if "status info \<noteq> WRIGLEY_STATUS_OFF"
    using that by (simp add: res_def wrigley_do_powerdown_def Let_def gpio_direction_output_eq)
  have soft: "res = (0, info\<lparr>status := WRIGLEY_STATUS_OFF\<rparr>,
                  w\<lparr>level := lowered, reads := reads w + Suc k,
                    trace := trace w @ [GpioOut (disable_gpio info) False]
                      @ concat (replicate k [GpioGet g True, Msleep 400])
                      @ [GpioGet g False, GpioOut (power_gpio info) False]\<rparr>)"
    if on: "status info \<noteq> WRIGLEY_STATUS_OFF" and k: "k < 10"
      and hi: "\<forall>j<k. sense w (reads w + j) g" and lo: "\<not> sense w (reads w + k) g"
    for k
  proof -
    have "powerdown_poll 0 info ?w1 =
        ?w1\<lparr>reads := reads ?w1 + Suc k,
          trace := trace ?w1 @ concat (replicate k [GpioGet (reset_gpio info) True, Msleep 400])
                     @ [GpioGet (reset_gpio info) False]\<rparr>"
      using k hi lo by (intro powerdown_poll_low) (simp_all add: g_def)
    then show ?thesis
      by (simp add: unfold [OF on] g_def lowered_def gpio_direction_output_eq)
  qed
  have hard: "res = (0, info\<lparr>status := WRIGLEY_STATUS_OFF\<rparr>,
                  w\<lparr>level := lowered, reads := reads w + 10,
                    trace := trace w @ [GpioOut (disable_gpio info) False]
                      @ concat (replicate 10 [GpioGet g True, Msleep 400])
                      @ [GpioOut (power_gpio info) False]\<rparr>)"
    if on: "status info \<noteq> WRIGLEY_STATUS_OFF" and hi: "\<forall>j<10. sense w (reads w + j) g"
  proof -
    have "powerdown_poll 0 info ?w1 =
        ?w1\<lparr>reads := reads ?w1 + 10,
          trace := trace ?w1 @ concat (replicate 10 [GpioGet (reset_gpio info) True, Msleep 400])\<rparr>"
      using hi by (intro powerdown_poll_high) (simp_all add: g_def)
    then show ?thesis
      by (simp add: unfold [OF on] g_def lowered_def gpio_direction_output_eq)
  qed
  have frame: "fst (snd res) = info\<lparr>status := WRIGLEY_STATUS_OFF\<rparr> \<and>
      level (snd (snd res)) = lowered"
    if on: "status info \<noteq> WRIGLEY_STATUS_OFF"
  proof -
    from first_sample [of 10 "\<lambda>j. \<not> sense w (reads w + j) g"]
    consider k where "k < 10" "\<forall>j<k. sense w (reads w + j) g" "\<not> sense w (reads w + k) g"
      | "\<forall>j<10. sense w (reads w + j) g"
      by auto
    then show ?thesis
    proof cases
      case 1
      then show ?thesis by (simp add: soft [OF on])
    next
      case 2
      then show ?thesis by (simp add: hard [OF on])
    qed
  qed
  have lines: "\<not> lowered (power_gpio info)" "\<not> lowered (disable_gpio info)"
    by (simp_all add: lowered_def)
  show ?thesis using basic off soft hard frame lines by auto
qed

theorem powerdown_outcome_witness:
  "status (board_info WRIGLEY_STATUS_NORMAL False False) \<noteq> WRIGLEY_STATUS_OFF \<and>
   wrigley_do_powerdown (board_info WRIGLEY_STATUS_NORMAL False False) (fresh_world (low_from 1))
     = (0, board_info WRIGLEY_STATUS_OFF False False,
        \<lparr>level = all_low(10 := False, 11 := False), sense = low_from 1, reads = 2,
         trace = [GpioOut 10 False, GpioGet 13 True, Msleep 400, GpioGet 13 False,
                  GpioOut 11 False]\<rparr>) \<and>
   fst (wrigley_do_powerdown (board_info WRIGLEY_STATUS_NORMAL False False)
          (fresh_world always_high)) = 0 \<and>
   fst (snd (wrigley_do_powerdown (board_info WRIGLEY_STATUS_NORMAL False False)
          (fresh_world always_high))) = board_info WRIGLEY_STATUS_OFF False False \<and>
   reads (snd (snd (wrigley_do_powerdown (board_info WRIGLEY_STATUS_NORMAL False False)
          (fresh_world always_high)))) = 10 \<and>
   status (board_info WRIGLEY_STATUS_OFF False False) = WRIGLEY_STATUS_OFF \<and>
   wrigley_do_powerdown (board_info WRIGLEY_STATUS_OFF False False) powered_world
     = (0, board_info WRIGLEY_STATUS_OFF False False, powered_world)"
proof -
  let ?i = "board_info WRIGLEY_STATUS_NORMAL False False"
  let ?w = "fresh_world (low_from 1)"
  let ?w' = "fresh_world always_high"
  let ?o = "board_info WRIGLEY_STATUS_OFF False False"
  have a: "status ?i \<noteq> WRIGLEY_STATUS_OFF"
    by (simp add: board_info_def status_defs)
  have b: "status ?o = WRIGLEY_STATUS_OFF"
    by (simp add: board_info_def)
  have soft: "wrigley_do_powerdown ?i ?w
     = (0, board_info WRIGLEY_STATUS_OFF False False,
        \<lparr>level = all_low(10 := False, 11 := False), sense = low_from 1, reads = 2,
         trace = [GpioOut 10 False, GpioGet 13 True, Msleep 400, GpioGet 13 False,
                  GpioOut 11 False]\<rparr>)"
    using powerdown_outcome [of ?i ?w, THEN conjunct2, THEN conjunct2, THEN conjunct2,
        rule_format, OF a, THEN conjunct1, rule_format, of 1]
    by (simp add: board_info_def fresh_world_def low_from_def)
  have hard: "wrigley_do_powerdown ?i ?w' =
      (0, ?i\<lparr>status := WRIGLEY_STATUS_OFF\<rparr>,
           ?w'\<lparr>level := (level ?w')(disable_gpio ?i := False, power_gpio ?i := False),
             reads := reads ?w' + 10,
             trace := trace ?w' @ [GpioOut (disable_gpio ?i) False]
                 @ concat (replicate 10 [GpioGet (reset_gpio ?i) True, Msleep 400])
                 @ [GpioOut (power_gpio ?i) False]\<rparr>)"
    using powerdown_outcome [of ?i ?w', THEN conjunct2, THEN conjunct2, THEN conjunct2,
        rule_format, OF a, THEN conjunct2, THEN conjunct1]
    by (simp add: fresh_world_def always_high_def)
  have noop: "wrigley_do_powerdown ?o powered_world = (0, ?o, powered_world)"
    using powerdown_outcome [of ?o powered_world, THEN conjunct2, THEN conjunct2,
        THEN conjunct1, rule_format, OF b] .
  show ?thesis
    unfolding soft hard noop using a b by (simp add: board_info_def fresh_world_def)
qed

text \<open>
  The claim as stated fails from the status Off when POWER is high, which is the state
  the attach produces when the rails were left up and the reset line reads low:
  \<open>wrigley_do_powerdown\<close> returns at once and POWER (GPIO 11) is still high.
\<close>

theorem powerdown_leaves_power_high:
  "fst (wrigley_probe board_pdata probe_ok powered_world)
     = Inr (board_info WRIGLEY_STATUS_OFF False False) \<and>
   fst (wrigley_do_powerdown (board_info WRIGLEY_STATUS_OFF False False)
          (snd (wrigley_probe board_pdata probe_ok powered_world))) = 0 \<and>
   level (snd (snd (wrigley_do_powerdown (board_info WRIGLEY_STATUS_OFF False False)
          (snd (wrigley_probe board_pdata probe_ok powered_world)))))
     (power_gpio (board_info WRIGLEY_STATUS_OFF False False))"
  by (simp add: probe_powered_world wrigley_do_powerdown_def)
     (simp add: board_info_def powered_world_def rails_up_def)

subsection \<open>Error values\<close>

text \<open>
  Claim C10. \<open>wrigley_do_powerup\<close> returns the same value \<open>-1\<close> in both of its failure
  cases, the early return when the modem is already on and the exhausted polling loop,
  and it never returns anything but \<open>0\<close> or \<open>-1\<close>; the command \<open>powerup\<close> passes that
  value on. An unknown command returns \<open>-EINVAL\<close>, which differs from \<open>-1\<close> and from
  \<open>0\<close>.
\<close>

theorem powerup_error_value:
  "(status info = WRIGLEY_STATUS_NORMAL \<or> status info = WRIGLEY_STATUS_FLASH \<longrightarrow>
      fst (wrigley_command info ''powerup'' w) = - 1) \<and>
   (status info \<noteq> WRIGLEY_STATUS_NORMAL \<and> status info \<noteq> WRIGLEY_STATUS_FLASH \<and>
    (\<forall>j<10. \<not> sense w (reads w + j) (reset_gpio info)) \<longrightarrow>
      fst (wrigley_command info ''powerup'' w) = - 1) \<and>
   (fst (wrigley_command info ''powerup'' w) = 0 \<or>
    fst (wrigley_command info ''powerup'' w) = - 1) \<and>
   (cmd \<notin> {''shutdown'', ''powerup'', ''bootmode_normal'', ''bootmode_flash'', ''suspend''} \<longrightarrow>
      fst (wrigley_command info cmd w) = - EINVAL) \<and>
   - EINVAL \<noteq> (- 1 :: int) \<and> - EINVAL \<noteq> (0 :: int)"
proof -
  have cmd: "wrigley_command info ''powerup'' w = wrigley_do_powerup info w"
    by (simp add: wrigley_command_def)
  have on: "fst (wrigley_do_powerup info w) = - 1"
    if "status info = WRIGLEY_STATUS_NORMAL \<or> status info = WRIGLEY_STATUS_FLASH"
    using that by (auto simp: wrigley_do_powerup_def)
  have exhausted: "fst (wrigley_do_powerup info w) = - 1"
    if "status info \<noteq> WRIGLEY_STATUS_NORMAL" "status info \<noteq> WRIGLEY_STATUS_FLASH"
      "\<forall>j<10. \<not> sense w (reads w + j) (reset_gpio info)"
    using that by (simp add: powerup_low)
  have either: "fst (wrigley_do_powerup info w) = 0 \<or> fst (wrigley_do_powerup info w) = - 1"
  proof (cases "status info = WRIGLEY_STATUS_NORMAL \<or> status info = WRIGLEY_STATUS_FLASH")
    case True
    then show ?thesis by (simp add: on)
  next
    case False
    then show ?thesis by (simp add: powerup_result(1))
  qed
  have unknown: "fst (wrigley_command info cmd w) = - EINVAL"
    if "cmd \<notin> {''shutdown'', ''powerup'', ''bootmode_normal'', ''bootmode_flash'', ''suspend''}"
    using that by (simp add: wrigley_command_def)
  show ?thesis
    unfolding cmd using on exhausted either unknown by (simp add: EINVAL_def)
qed

theorem powerup_error_value_witness:
  "status (board_info WRIGLEY_STATUS_NORMAL False False) = WRIGLEY_STATUS_NORMAL \<and>
   fst (wrigley_command (board_info WRIGLEY_STATUS_NORMAL False False) ''powerup''
          (fresh_world always_high)) = - 1 \<and>
   status (board_info WRIGLEY_STATUS_OFF False False) \<noteq> WRIGLEY_STATUS_NORMAL \<and>
   status (board_info WRIGLEY_STATUS_OFF False False) \<noteq> WRIGLEY_STATUS_FLASH \<and>
   fst (wrigley_command (board_info WRIGLEY_STATUS_OFF False False) ''powerup''
          (fresh_world always_low)) = - 1 \<and>
   fst (wrigley_command (board_info WRIGLEY_STATUS_OFF False False) ''reset''
          (fresh_world always_low)) = - 22"
  using powerup_error_value [of "board_info WRIGLEY_STATUS_NORMAL False False"
      "fresh_world always_high" "''reset''"]
    powerup_error_value [of "board_info WRIGLEY_STATUS_OFF False False"
      "fresh_world always_low" "''reset''"]
  by (simp add: board_info_def fresh_world_def always_low_def status_defs EINVAL_def)

subsection \<open>Frame properties of power down\<close>

lemma uevents_append: "uevents (es @ fs) = uevents es @ uevents fs"
  by (induction es rule: uevents.induct) simp_all

lemma powerdown_poll_frame:
  "level (powerdown_poll i info w) = level w \<and>
   uevents (trace (powerdown_poll i info w)) = uevents (trace w)"
proof (induction i info w rule: powerdown_poll.induct)
  case (1 i info w)
  show ?case
  proof (cases "i < 10 \<and> sense w (reads w) (reset_gpio info)")
    case True
    then have "powerdown_poll i info w =
        powerdown_poll (Suc i) info (msleep 400 (snd (gpio_get_value (reset_gpio info) w)))"
      by (subst powerdown_poll.simps) (simp add: poll_step)
    moreover have "level (powerdown_poll (Suc i) info
          (msleep 400 (snd (gpio_get_value (reset_gpio info) w)))) =
        level (msleep 400 (snd (gpio_get_value (reset_gpio info) w))) \<and>
      uevents (trace (powerdown_poll (Suc i) info
          (msleep 400 (snd (gpio_get_value (reset_gpio info) w))))) =
        uevents (trace (msleep 400 (snd (gpio_get_value (reset_gpio info) w))))"
      using True
      by (intro "1.IH" [of "sense w (reads w) (reset_gpio info)"
            "snd (gpio_get_value (reset_gpio info) w)"]) (simp_all add: poll_step)
    ultimately show ?thesis by (simp add: poll_step uevents_append)
  next
    case False
    then show ?thesis
      by (subst (1 2) powerdown_poll.simps) (auto simp: poll_step uevents_append)
  qed
qed

lemma powerdown_frame:
  "fst (wrigley_do_powerdown info w) = 0"
  "status (fst (snd (wrigley_do_powerdown info w))) = WRIGLEY_STATUS_OFF"
  "fst (snd (wrigley_do_powerdown info w)) = info\<lparr>status := WRIGLEY_STATUS_OFF\<rparr>"
  "level (snd (snd (wrigley_do_powerdown info w))) =
     (if status info = WRIGLEY_STATUS_OFF then level w
      else (level w)(disable_gpio info := False, power_gpio info := False))"
  "uevents (trace (snd (snd (wrigley_do_powerdown info w)))) = uevents (trace w)"
  by (simp_all add: wrigley_do_powerdown_def Let_def gpio_direction_output_eq
      powerdown_poll_frame uevents_append)

lemma powerdown_poll_trace_extends:
  "\<exists>evs. trace (powerdown_poll i info w) = trace w @ evs"
proof (induction i info w rule: powerdown_poll.induct)
  case (1 i info w)
  show ?case
  proof (cases "i < 10 \<and> sense w (reads w) (reset_gpio info)")
    case True
    then have "powerdown_poll i info w =
        powerdown_poll (Suc i) info (msleep 400 (snd (gpio_get_value (reset_gpio info) w)))"
      by (subst powerdown_poll.simps) (simp add: poll_step)
    moreover have "\<exists>evs. trace (powerdown_poll (Suc i) info
          (msleep 400 (snd (gpio_get_value (reset_gpio info) w)))) =
        trace (msleep 400 (snd (gpio_get_value (reset_gpio info) w))) @ evs"
      using True
      by (intro "1.IH" [of "sense w (reads w) (reset_gpio info)"
            "snd (gpio_get_value (reset_gpio info) w)"]) (simp_all add: poll_step)
    ultimately show ?thesis by (auto simp: poll_step)
  next
    case False
    then show ?thesis
      by (subst powerdown_poll.simps) (auto simp: poll_step)
  qed
qed

lemma powerdown_trace_extends:
  "\<exists>evs. trace (snd (snd (wrigley_do_powerdown info w))) = trace w @ evs"
proof (cases "status info = WRIGLEY_STATUS_OFF")
  case True
  then show ?thesis by (simp add: wrigley_do_powerdown_def)
next
  case False
  obtain evs where
    "trace (powerdown_poll 0 info (gpio_direction_output (disable_gpio info) False w)) =
     trace (gpio_direction_output (disable_gpio info) False w) @ evs"
    using powerdown_poll_trace_extends by blast
  then show ?thesis
    using False by (simp add: wrigley_do_powerdown_def Let_def gpio_direction_output_eq)
qed

text \<open>Power down when the first sample of the reset line already reads low.\<close>

lemma powerdown_first_low:
  assumes "status info \<noteq> WRIGLEY_STATUS_OFF" and "\<not> sense w (reads w) (reset_gpio info)"
  shows "wrigley_do_powerdown info w =
      (0, info\<lparr>status := WRIGLEY_STATUS_OFF\<rparr>,
       w\<lparr>level := (level w)(disable_gpio info := False, power_gpio info := False),
         reads := Suc (reads w),
         trace := trace w @ [GpioOut (disable_gpio info) False,
                    GpioGet (reset_gpio info) False, GpioOut (power_gpio info) False]\<rparr>)"
proof -
  let ?w1 = "w\<lparr>level := (level w)(disable_gpio info := False),
               trace := trace w @ [GpioOut (disable_gpio info) False]\<rparr>"
  have "powerdown_poll 0 info ?w1 =
      ?w1\<lparr>reads := reads ?w1 + Suc 0,
        trace := trace ?w1 @ concat (replicate 0 [GpioGet (reset_gpio info) True, Msleep 400])
                   @ [GpioGet (reset_gpio info) False]\<rparr>"
    using assms(2) by (intro powerdown_poll_low) simp_all
  then show ?thesis
    using assms(1) by (simp add: wrigley_do_powerdown_def Let_def gpio_direction_output_eq)
qed

subsection \<open>Reboot notifier\<close>

text \<open>
  Claim C9. Whatever the status (Off included), \<open>wrigley_process_reboot\<close> returns
  \<open>NOTIFY_DONE\<close>. When a device registration is active it first emits one change event
  carrying \<open>WRIGLEY_SHUTDOWN=1\<close> and then runs \<open>wrigley_do_powerdown\<close> once on the
  resulting world; that event is the only user-space event the call adds. Without a
  registration it runs \<open>wrigley_do_powerdown\<close> alone and adds no event. The result of
  the power down is dropped, and the status is Off afterwards.
\<close>

theorem reboot_notifies_then_powers_down:
  fixes info :: wrigley_info and w :: world
  defines "marker \<equiv> [''WRIGLEY_SHUTDOWN=1'']"
  defines "res \<equiv> wrigley_process_reboot info w"
  shows
    "fst res = NOTIFY_DONE \<and>
     status (fst (snd res)) = WRIGLEY_STATUS_OFF \<and>
     (rdev_dev info \<longrightarrow>
        snd res = snd (wrigley_do_powerdown info (w\<lparr>trace := trace w @ [Uevent marker]\<rparr>)) \<and>
        take (Suc (length (trace w))) (trace (snd (snd res))) = trace w @ [Uevent marker] \<and>
        uevents (trace (snd (snd res))) = uevents (trace w) @ [marker]) \<and>
     (\<not> rdev_dev info \<longrightarrow>
        snd res = snd (wrigley_do_powerdown info w) \<and>
        uevents (trace (snd (snd res))) = uevents (trace w))"
proof -
  let ?w1 = "w\<lparr>trace := trace w @ [Uevent marker]\<rparr>"
  have ret: "fst res = NOTIFY_DONE"
    by (simp add: res_def wrigley_process_reboot_def Let_def split: prod.split)
  have reg: "snd res = snd (wrigley_do_powerdown info ?w1)" if "rdev_dev info"
    using that
    by (simp add: res_def wrigley_process_reboot_def Let_def kobject_uevent_env_def emit_def
        marker_def split: prod.split)
  have unreg: "snd res = snd (wrigley_do_powerdown info w)" if "\<not> rdev_dev info"
    using that
    by (simp add: res_def wrigley_process_reboot_def Let_def split: prod.split)
  have off: "status (fst (snd res)) = WRIGLEY_STATUS_OFF"
    using reg unreg by (cases "rdev_dev info") (simp_all add: powerdown_frame)
  have ev1: "uevents (trace (snd (snd res))) = uevents (trace w) @ [marker]" if "rdev_dev info"
    using that by (simp add: reg powerdown_frame uevents_append)
  have ev0: "uevents (trace (snd (snd res))) = uevents (trace w)" if "\<not> rdev_dev info"
    using that by (simp add: unreg powerdown_frame)
  have first: "take (Suc (length (trace w))) (trace (snd (snd res))) = trace w @ [Uevent marker]"
    if "rdev_dev info"
  proof -
    obtain evs where "trace (snd (snd (wrigley_do_powerdown info ?w1))) = trace ?w1 @ evs"
      using powerdown_trace_extends by blast
    then show ?thesis using that by (simp add: reg)
  qed
  show ?thesis using ret off reg unreg ev1 ev0 first by simp
qed

theorem reboot_notifies_then_powers_down_witness:
  "rdev_dev (board_info WRIGLEY_STATUS_OFF False False) \<and>
   wrigley_process_reboot (board_info WRIGLEY_STATUS_OFF False False) (fresh_world always_low)
     = (0, board_info WRIGLEY_STATUS_OFF False False,
        \<lparr>level = all_low, sense = always_low, reads = 0,
         trace = [Uevent [''WRIGLEY_SHUTDOWN=1'']]\<rparr>) \<and>
   rdev_dev (board_info WRIGLEY_STATUS_NORMAL False False) \<and>
   wrigley_process_reboot (board_info WRIGLEY_STATUS_NORMAL False False) (fresh_world always_low)
     = (0, board_info WRIGLEY_STATUS_OFF False False,
        \<lparr>level = all_low(10 := False, 11 := False), sense = always_low, reads = 1,
         trace = [Uevent [''WRIGLEY_SHUTDOWN=1''], GpioOut 10 False, GpioGet 13 False,
                  GpioOut 11 False]\<rparr>) \<and>
   \<not> rdev_dev (kzalloc_info\<lparr>status := WRIGLEY_STATUS_OFF\<rparr>) \<and>
   wrigley_process_reboot (kzalloc_info\<lparr>status := WRIGLEY_STATUS_OFF\<rparr>) (fresh_world always_low)
     = (0, kzalloc_info\<lparr>status := WRIGLEY_STATUS_OFF\<rparr>, fresh_world always_low)"
proof -
  let ?o = "board_info WRIGLEY_STATUS_OFF False False"
  let ?n = "board_info WRIGLEY_STATUS_NORMAL False False"
  let ?z = "kzalloc_info\<lparr>status := WRIGLEY_STATUS_OFF\<rparr>"
  let ?w = "fresh_world always_low"
  have r: "rdev_dev ?o" "rdev_dev ?n" "\<not> rdev_dev ?z"
    by (simp_all add: board_info_def kzalloc_info_def)
  have pair: "x = (fst x, snd x)" for x :: "int \<times> wrigley_info \<times> world"
    by simp
  have 1: "wrigley_process_reboot ?o ?w =
      (0, snd (wrigley_do_powerdown ?o (?w\<lparr>trace := trace ?w @ [Uevent [''WRIGLEY_SHUTDOWN=1'']]\<rparr>)))"
    using reboot_notifies_then_powers_down [of ?o ?w] r(1)
    by (subst pair) (simp add: NOTIFY_DONE_def)
  have 2: "wrigley_process_reboot ?n ?w =
      (0, snd (wrigley_do_powerdown ?n (?w\<lparr>trace := trace ?w @ [Uevent [''WRIGLEY_SHUTDOWN=1'']]\<rparr>)))"
    using reboot_notifies_then_powers_down [of ?n ?w] r(2)
    by (subst pair) (simp add: NOTIFY_DONE_def)
  have 3: "wrigley_process_reboot ?z ?w = (0, snd (wrigley_do_powerdown ?z ?w))"
    using reboot_notifies_then_powers_down [of ?z ?w] r(3)
    by (subst pair) (simp add: NOTIFY_DONE_def)
  have d1: "wrigley_do_powerdown ?o w' = (0, ?o, w')" for w'
    by (simp add: wrigley_do_powerdown_def board_info_def)
  have d3: "wrigley_do_powerdown ?z w' = (0, ?z, w')" for w'
    by (simp add: wrigley_do_powerdown_def)
  have d2: "wrigley_do_powerdown ?n (?w\<lparr>trace := trace ?w @ [Uevent [''WRIGLEY_SHUTDOWN=1'']]\<rparr>)
     = (0, board_info WRIGLEY_STATUS_OFF False False,
        \<lparr>level = all_low(10 := False, 11 := False), sense = always_low, reads = 1,
         trace = [Uevent [''WRIGLEY_SHUTDOWN=1''], GpioOut 10 False, GpioGet 13 False,
                  GpioOut 11 False]\<rparr>)"
    by (subst powerdown_first_low)
       (simp_all add: board_info_def fresh_world_def always_low_def status_defs)
  show ?thesis
    unfolding 1 2 3 d1 d2 d3 using r by (simp add: fresh_world_def)
qed

subsection \<open>Status text\<close>

lemma status_in_range:
  fixes st :: wrigley_status
  assumes "\<not> st > WRIGLEY_STATUS_UNDEFINED"
  shows "st = WRIGLEY_STATUS_NORMAL \<or> st = WRIGLEY_STATUS_FLASH \<or>
         st = WRIGLEY_STATUS_RESETTING \<or> st = WRIGLEY_STATUS_OFF \<or>
         st = WRIGLEY_STATUS_UNDEFINED"
proof -
  have "unat st \<le> 4"
    using assms by (simp add: WRIGLEY_STATUS_UNDEFINED_def word_less_nat_alt not_less)
  then have "unat st = 0 \<or> unat st = 1 \<or> unat st = 2 \<or> unat st = 3 \<or> unat st = 4"
    by arith
  then have "st = 0 \<or> st = 1 \<or> st = 2 \<or> st = 3 \<or> st = 4"
    by (simp add: word_unat_eq_iff)
  then show ?thesis by (simp add: status_defs)
qed

lemma status_str_token:
  fixes st :: wrigley_status
  assumes "\<not> st > WRIGLEY_STATUS_UNDEFINED"
  shows "wrigley_status_str ! unat st = status_token st"
  using status_in_range [OF assms]
  by (auto simp: status_defs wrigley_status_str_def status_token_def
      RADIO_STATUS_NORMAL_NAME_def RADIO_STATUS_FLASH_NAME_def RADIO_STATUS_RESETTING_NAME_def
      RADIO_STATUS_OFF_NAME_def RADIO_STATUS_UNDEFINED_NAME_def)

lemma status_token_length: "length (status_token st) \<le> 9"
  by (simp add: status_token_def)

lemma status_token_out_of_range:
  fixes st :: wrigley_status
  assumes "st > WRIGLEY_STATUS_UNDEFINED"
  shows "status_token st = status_token WRIGLEY_STATUS_UNDEFINED"
proof -
  have "4 < unat st"
    using assms by (simp add: WRIGLEY_STATUS_UNDEFINED_def word_less_nat_alt)
  then have "st \<noteq> 0 \<and> st \<noteq> 1 \<and> st \<noteq> 2 \<and> st \<noteq> 3"
    by (auto simp: word_unat_eq_iff)
  then show ?thesis by (simp add: status_token_def status_defs)
qed

text \<open>
  Claim C8, as amended. \<open>wrigley_status_show\<close> formats the token of the status, a value
  above Undefined counting as Undefined, followed by a newline: the result is the
  length of that text, and the buffer receives it whole when
  \<open>RADIO_STATUS_MAX_LENGTH\<close> exceeds 10 (in general its first
  \<open>RADIO_STATUS_MAX_LENGTH - 1\<close> bytes). The function has no access to the lines. It
  leaves the controller state unchanged when the stored status is within the defined
  range; when the stored status is above Undefined it stores Undefined in its place
  and changes no other field.
\<close>

theorem status_show_clamps:
  fixes info :: wrigley_info and buff :: string and max_length :: nat
  defines "res \<equiv> wrigley_status_show max_length info buff"
  defines "line \<equiv> status_token (status info) @ [CHR 0x0A]"
  shows
    "fst res = int (length line) \<and>
     (max_length = 0 \<longrightarrow> fst (snd res) = buff) \<and>
     (0 < max_length \<longrightarrow> fst (snd res) = take (max_length - 1) line) \<and>
     (10 < max_length \<longrightarrow> fst (snd res) = line) \<and>
     (\<not> status info > WRIGLEY_STATUS_UNDEFINED \<longrightarrow> snd (snd res) = info) \<and>
     (status info > WRIGLEY_STATUS_UNDEFINED \<longrightarrow>
        snd (snd res) = info\<lparr>status := WRIGLEY_STATUS_UNDEFINED\<rparr> \<and>
        status_token (status info) = ''undefined'') \<and>
     (snd (snd res))\<lparr>status := status info\<rparr> = info"
proof -
  let ?info1 = "if status info > WRIGLEY_STATUS_UNDEFINED
                then info\<lparr>status := WRIGLEY_STATUS_UNDEFINED\<rparr> else info"
  have clamped: "\<not> status ?info1 > WRIGLEY_STATUS_UNDEFINED"
    by simp
  have tok: "wrigley_status_str ! unat (status ?info1) = status_token (status info)"
    unfolding status_str_token [OF clamped]
    by (simp add: status_token_out_of_range)
  have res: "res = (int (length line),
      if max_length = 0 then buff else take (max_length - 1) line, ?info1)"
    unfolding res_def wrigley_status_show_def Let_def tok snprintf_def line_def by simp
  have len: "length line \<le> 10"
    using status_token_length [of "status info"] by (simp add: line_def)
  have undef: "status_token (status info) = ''undefined''"
    if "status info > WRIGLEY_STATUS_UNDEFINED"
    using status_token_out_of_range [OF that]
    by (simp add: status_token_def status_defs)
  show ?thesis
    unfolding res using len undef by auto
qed

theorem status_show_clamps_witness:
  "\<not> status (board_info WRIGLEY_STATUS_OFF False False) > WRIGLEY_STATUS_UNDEFINED \<and>
   wrigley_status_show 32 (board_info WRIGLEY_STATUS_OFF False False) ''''
     = (4, ''off'' @ [CHR 0x0A], board_info WRIGLEY_STATUS_OFF False False) \<and>
   status (board_info 7 False False) > WRIGLEY_STATUS_UNDEFINED \<and>
   wrigley_status_show 32 (board_info 7 False False) ''''
     = (10, ''undefined'' @ [CHR 0x0A], board_info WRIGLEY_STATUS_UNDEFINED False False)"
proof -
  let ?o = "board_info WRIGLEY_STATUS_OFF False False"
  let ?x = "board_info 7 False False"
  have a: "\<not> status ?o > WRIGLEY_STATUS_UNDEFINED"
    by (simp add: board_info_def status_defs)
  have b: "status ?x > WRIGLEY_STATUS_UNDEFINED"
    by (simp add: board_info_def status_defs)
  have triple: "x = (fst x, fst (snd x), snd (snd x))" for x :: "int \<times> string \<times> wrigley_info"
    by simp
  have 1: "wrigley_status_show 32 ?o '''' = (4, ''off'' @ [CHR 0x0A], ?o)"
    using status_show_clamps [of 32 ?o "''''"] a
    by (subst triple) (simp add: board_info_def status_token_def status_defs)
  have 2: "wrigley_status_show 32 ?x ''''
     = (10, ''undefined'' @ [CHR 0x0A], board_info WRIGLEY_STATUS_UNDEFINED False False)"
    using status_show_clamps [of 32 ?x "''''"] b
    by (subst triple) (simp add: board_info_def)
  show ?thesis using a b 1 2 by simp
qed

text \<open>
  The status query is not read-only in every state: with the stored status 7 the
  controller state after the query differs from the one before.
\<close>

theorem status_show_writes_status:
  "status (snd (snd (wrigley_status_show 32 (board_info 7 False False) '''')))
     = WRIGLEY_STATUS_UNDEFINED \<and>
   status (board_info 7 False False) \<noteq> WRIGLEY_STATUS_UNDEFINED \<and>
   snd (snd (wrigley_status_show 32 (board_info 7 False False) ''''))
     \<noteq> board_info 7 False False"
  by (simp add: wrigley_status_show_def snprintf_def board_info_def status_defs Let_def)

subsection \<open>Status Off and the power lines\<close>

text \<open>What a successful attach leaves behind: it reads two lines and drives none.\<close>

lemma probe_success:
  assumes "wrigley_probe pdata env w = (Inr info, w')"
  shows "disable_gpio info = gpio_disable pdata"
    and "power_gpio info = gpio_power_enable pdata"
    and "status info = WRIGLEY_STATUS_OFF \<longleftrightarrow> \<not> sense w (Suc (reads w)) (gpio_reset pdata)"
    and "level w' = level w"
  using assms
  by (auto simp: wrigley_probe_def Let_def gpio_request_def request_threaded_irq_def
      radio_dev_register_def gpio_get_value_eq emit_def status_defs
      split: if_splits prod.splits)

text \<open>Each entry point of the driver keeps the invariant.\<close>

lemma powerdown_off_lines_low:
  "off_lines_low (info, w) \<Longrightarrow> off_lines_low (snd (wrigley_do_powerdown info w))"
  by (cases "wrigley_do_powerdown info w")
     (use powerdown_frame(3,4) [of info w] in \<open>auto simp: off_lines_low_def\<close>)

lemma powerup_off_lines_low:
  "off_lines_low (info, w) \<Longrightarrow> off_lines_low (snd (wrigley_do_powerup info w))"
proof (cases "status info = WRIGLEY_STATUS_NORMAL \<or> status info = WRIGLEY_STATUS_FLASH")
  case True
  moreover assume "off_lines_low (info, w)"
  ultimately show ?thesis by (auto simp: wrigley_do_powerup_def)
next
  case False
  then have "status (fst (snd (wrigley_do_powerup info w))) \<noteq> WRIGLEY_STATUS_OFF"
    by (simp add: powerup_result(2) status_defs)
  then show ?thesis
    by (cases "wrigley_do_powerup info w") (simp add: off_lines_low_def)
qed

lemma command_off_lines_low:
  "off_lines_low (info, w) \<Longrightarrow> off_lines_low (snd (wrigley_command info cmd w))"
  by (auto simp: wrigley_command_def wrigley_set_flash_mode_def
      powerdown_off_lines_low powerup_off_lines_low)
     (simp_all add: off_lines_low_def)

lemma status_show_off_lines_low:
  "off_lines_low (info, w) \<Longrightarrow>
   off_lines_low (snd (snd (wrigley_status_show n info buff)), w)"
  by (auto simp: wrigley_status_show_def snprintf_def Let_def off_lines_low_def status_defs)

lemma reset_isr_off_lines_low:
  "off_lines_low (info, w) \<Longrightarrow> off_lines_low (snd (wrigley_reset_isr info), w)"
  by (auto simp: wrigley_reset_isr_def off_lines_low_def status_defs)

lemma reset_fn_off_lines_low:
  "off_lines_low (info, w) \<Longrightarrow> off_lines_low (info, snd (wrigley_reset_fn info w))"
  by (auto simp: wrigley_reset_fn_def off_lines_low_def Let_def kernel_defs)

lemma process_reboot_off_lines_low:
  "off_lines_low (info, w) \<Longrightarrow> off_lines_low (snd (wrigley_process_reboot info w))"
proof -
  assume inv: "off_lines_low (info, w)"
  have "off_lines_low (info, if rdev_dev info
      then kobject_uevent_env [''WRIGLEY_SHUTDOWN=1''] w else w)"
    using inv by (simp add: off_lines_low_def kernel_defs)
  then have "off_lines_low (snd (wrigley_do_powerdown info
      (if rdev_dev info then kobject_uevent_env [''WRIGLEY_SHUTDOWN=1''] w else w)))"
    by (rule powerdown_off_lines_low)
  moreover have "snd (wrigley_process_reboot info w) =
      snd (wrigley_do_powerdown info
        (if rdev_dev info then kobject_uevent_env [''WRIGLEY_SHUTDOWN=1''] w else w))"
    by (simp add: wrigley_process_reboot_def Let_def case_prod_beta)
  ultimately show ?thesis by (simp only:)
qed

lemma exec_off_lines_low: "off_lines_low s \<Longrightarrow> off_lines_low (exec c s)"
proof (cases s)
  case (Pair info w)
  assume "off_lines_low s"
  then have inv: "off_lines_low (info, w)" by (simp add: Pair)
  show ?thesis
    unfolding Pair
    by (cases c)
       (simp_all add: inv command_off_lines_low status_show_off_lines_low
          reset_isr_off_lines_low reset_fn_off_lines_low process_reboot_off_lines_low
          powerdown_off_lines_low wrigley_shutdown_def)
qed

lemma run_off_lines_low: "off_lines_low s \<Longrightarrow> off_lines_low (run calls s)"
  unfolding run_def by (induction calls arbitrary: s) (simp_all add: exec_off_lines_low)

text \<open>
  Claim C7, as amended. The invariant "status Off implies POWER low and DISABLE low"
  is kept by every entry point of the driver (commands, status query, both phases of
  the reset interrupt, reboot notifier, shutdown hook), so it holds along every run
  that starts in a state where it holds. The attach does not drive POWER or DISABLE:
  the state it produces satisfies the invariant, and so does every state reached from
  it, when RESET-SENSE read high at attach or POWER and DISABLE were then already low.
  Any power down that starts from a status other than Off establishes the invariant.
\<close>

theorem off_lines_low_invariant:
  "(off_lines_low s \<longrightarrow> off_lines_low (run calls s)) \<and>
   (wrigley_probe pdata env w = (Inr info, w') \<and>
    (sense w (Suc (reads w)) (gpio_reset pdata) \<or>
     \<not> level w (gpio_power_enable pdata) \<and> \<not> level w (gpio_disable pdata)) \<longrightarrow>
      off_lines_low (info, w') \<and> off_lines_low (run calls (info, w'))) \<and>
   (status info \<noteq> WRIGLEY_STATUS_OFF \<longrightarrow>
      off_lines_low (run calls (snd (wrigley_do_powerdown info w))))"
proof (intro conjI impI)
  assume "off_lines_low s"
  then show "off_lines_low (run calls s)" by (rule run_off_lines_low)
next
  assume a: "wrigley_probe pdata env w = (Inr info, w') \<and>
    (sense w (Suc (reads w)) (gpio_reset pdata) \<or>
     \<not> level w (gpio_power_enable pdata) \<and> \<not> level w (gpio_disable pdata))"
  then have p: "wrigley_probe pdata env w = (Inr info, w')" by simp
  show init: "off_lines_low (info, w')"
    using a probe_success [OF p] by (auto simp: off_lines_low_def)
  then show "off_lines_low (run calls (info, w'))" by (rule run_off_lines_low)
next
  assume "status info \<noteq> WRIGLEY_STATUS_OFF"
  then have "off_lines_low (snd (wrigley_do_powerdown info w))"
    by (cases "wrigley_do_powerdown info w")
       (use powerdown_frame(3,4) [of info w] in \<open>auto simp: off_lines_low_def\<close>)
  then show "off_lines_low (run calls (snd (wrigley_do_powerdown info w)))"
    by (rule run_off_lines_low)
qed
lemma probe_fresh_world:
  "wrigley_probe board_pdata probe_ok (fresh_world always_low) =
     (Inr (board_info WRIGLEY_STATUS_OFF False False),
      (fresh_world always_low)\<lparr>reads := 2,
        trace := [GpioRequest 10, GpioExport 10, GpioRequest 13, GpioDirIn 13, IrqRequest 13,
                  GpioExport 13, GpioRequest 12, GpioExport 12, GpioRequest 11, GpioExport 11,
                  RebootNotifierRegister, GpioGet 12 False, GpioGet 13 False,
                  RadioDevRegister]\<rparr>)"
  by (simp add: wrigley_probe_def board_pdata_def probe_ok_def fresh_world_def
      kzalloc_info_def gpio_request_def request_threaded_irq_def radio_dev_register_def
      gpio_get_value_eq emit_def always_low_def board_info_def Let_def)

theorem off_lines_low_invariant_witness:
  "status (board_info WRIGLEY_STATUS_OFF False False) = WRIGLEY_STATUS_OFF \<and>
   \<not> level (fresh_world always_low) (power_gpio (board_info WRIGLEY_STATUS_OFF False False)) \<and>
   \<not> level (fresh_world always_low) (disable_gpio (board_info WRIGLEY_STATUS_OFF False False)) \<and>
   status (fst (run [Shutdown, ResetThread]
     (board_info WRIGLEY_STATUS_OFF False False, fresh_world always_low))) = WRIGLEY_STATUS_OFF \<and>
   \<not> level (snd (run [Shutdown, ResetThread]
     (board_info WRIGLEY_STATUS_OFF False False, fresh_world always_low))) 11 \<and>
   \<not> level (snd (run [Shutdown, ResetThread]
     (board_info WRIGLEY_STATUS_OFF False False, fresh_world always_low))) 10 \<and>
   status (board_info WRIGLEY_STATUS_NORMAL False False) \<noteq> WRIGLEY_STATUS_OFF \<and>
   status (fst (run [ResetThread, Command ''bootmode_flash'', Command ''suspend'', ResetIsr]
     (snd (wrigley_do_powerdown (board_info WRIGLEY_STATUS_NORMAL False False)
        (fresh_world always_low))))) = WRIGLEY_STATUS_OFF \<and>
   \<not> level (snd (run [ResetThread, Command ''bootmode_flash'', Command ''suspend'', ResetIsr]
     (snd (wrigley_do_powerdown (board_info WRIGLEY_STATUS_NORMAL False False)
        (fresh_world always_low))))) 11 \<and>
   \<not> level (snd (run [ResetThread, Command ''bootmode_flash'', Command ''suspend'', ResetIsr]
     (snd (wrigley_do_powerdown (board_info WRIGLEY_STATUS_NORMAL False False)
        (fresh_world always_low))))) 10 \<and>
   fst (wrigley_probe board_pdata probe_ok (fresh_world always_low))
     = Inr (board_info WRIGLEY_STATUS_OFF False False) \<and>
   \<not> level (fresh_world always_low) (gpio_power_enable board_pdata) \<and>
   \<not> level (fresh_world always_low) (gpio_disable board_pdata) \<and>
   status (fst (run [StatusShow 32 '''', Reboot]
     (board_info WRIGLEY_STATUS_OFF False False,
      snd (wrigley_probe board_pdata probe_ok (fresh_world always_low))))) = WRIGLEY_STATUS_OFF \<and>
   \<not> level (snd (run [StatusShow 32 '''', Reboot]
     (board_info WRIGLEY_STATUS_OFF False False,
      snd (wrigley_probe board_pdata probe_ok (fresh_world always_low))))) 11 \<and>
   \<not> level (snd (run [StatusShow 32 '''', Reboot]
     (board_info WRIGLEY_STATUS_OFF False False,
      snd (wrigley_probe board_pdata probe_ok (fresh_world always_low))))) 10"
proof -
  let ?n = "board_info WRIGLEY_STATUS_NORMAL False False"
  let ?o = "board_info WRIGLEY_STATUS_OFF False False"
  let ?w = "fresh_world always_low"
  let ?calls = "[ResetThread, Command ''bootmode_flash'', Command ''suspend'', ResetIsr]"
  let ?calls' = "[StatusShow 32 '''', Reboot]"
  let ?w' = "snd (wrigley_probe board_pdata probe_ok ?w)"
  have a: "status ?n \<noteq> WRIGLEY_STATUS_OFF"
    by (simp add: board_info_def status_defs)
  have down: "wrigley_do_powerdown ?n ?w =
      (0, ?o, ?w\<lparr>level := (level ?w)(10 := False, 11 := False), reads := 1,
           trace := [GpioOut 10 False, GpioGet 13 False, GpioOut 11 False]\<rparr>)"
    by (subst powerdown_first_low)
       (simp_all add: board_info_def fresh_world_def always_low_def status_defs)
  have st1: "status (fst (run ?calls (snd (wrigley_do_powerdown ?n ?w)))) = WRIGLEY_STATUS_OFF"
    unfolding down
    by (simp add: run_def wrigley_reset_fn_def wrigley_command_def wrigley_set_flash_mode_def
        wrigley_reset_isr_def board_info_def Let_def)
  have pw1: "power_gpio (fst (run ?calls (snd (wrigley_do_powerdown ?n ?w)))) = 11"
    and di1: "disable_gpio (fst (run ?calls (snd (wrigley_do_powerdown ?n ?w)))) = 10"
    unfolding down
    by (simp_all add: run_def wrigley_reset_fn_def wrigley_command_def wrigley_set_flash_mode_def
        wrigley_reset_isr_def board_info_def Let_def)
  have inv1: "off_lines_low (run ?calls (snd (wrigley_do_powerdown ?n ?w)))"
    using off_lines_low_invariant [where calls = ?calls and info = ?n and w = ?w,
        THEN conjunct2, THEN conjunct2, rule_format, OF a] .
  have p: "wrigley_probe board_pdata probe_ok ?w = (Inr ?o, ?w')"
    by (simp add: probe_fresh_world)
  have lv: "\<not> level ?w (gpio_power_enable board_pdata)" "\<not> level ?w (gpio_disable board_pdata)"
    by (simp_all add: fresh_world_def all_low_def)
  have inv2: "off_lines_low (run ?calls' (?o, ?w'))"
    using off_lines_low_invariant [where calls = ?calls' and pdata = board_pdata
        and env = probe_ok and w = ?w and info = ?o and w' = ?w',
        THEN conjunct2, THEN conjunct1, rule_format, THEN conjunct2] p lv
    by simp
  have off: "wrigley_do_powerdown ?o v = (0, ?o, v)" for v
    by (simp add: wrigley_do_powerdown_def board_info_def)
  have st2: "status (fst (run ?calls' (?o, ?w'))) = WRIGLEY_STATUS_OFF"
    and pw2: "power_gpio (fst (run ?calls' (?o, ?w'))) = 11"
    and di2: "disable_gpio (fst (run ?calls' (?o, ?w'))) = 10"
    by (simp_all add: run_def wrigley_status_show_def snprintf_def wrigley_process_reboot_def
        off Let_def)
       (simp_all add: board_info_def status_defs)
  have l1: "\<not> level (snd (run ?calls (snd (wrigley_do_powerdown ?n ?w)))) 11 \<and>
            \<not> level (snd (run ?calls (snd (wrigley_do_powerdown ?n ?w)))) 10"
    using inv1 st1 pw1 di1 by (simp add: off_lines_low_def case_prod_beta)
  have l2: "\<not> level (snd (run ?calls' (?o, ?w'))) 11 \<and>
            \<not> level (snd (run ?calls' (?o, ?w'))) 10"
    using inv2 st2 pw2 di2 by (simp add: off_lines_low_def case_prod_beta)
  have pf: "fst (wrigley_probe board_pdata probe_ok ?w) = Inr ?o"
    by (simp add: probe_fresh_world)
  let ?calls0 = "[Shutdown, ResetThread]"
  have b: "status ?o = WRIGLEY_STATUS_OFF" "\<not> level ?w (power_gpio ?o)"
    "\<not> level ?w (disable_gpio ?o)"
    by (simp_all add: board_info_def fresh_world_def all_low_def)
  then have inv0: "off_lines_low (?o, ?w)"
    by (simp add: off_lines_low_def)
  have inv3: "off_lines_low (run ?calls0 (?o, ?w))"
    using off_lines_low_invariant [where calls = ?calls0 and s = "(?o, ?w)",
        THEN conjunct1, rule_format, OF inv0] .
  have st3: "status (fst (run ?calls0 (?o, ?w))) = WRIGLEY_STATUS_OFF"
    and pw3: "power_gpio (fst (run ?calls0 (?o, ?w))) = 11"
    and di3: "disable_gpio (fst (run ?calls0 (?o, ?w))) = 10"
    by (simp_all add: run_def wrigley_shutdown_def wrigley_reset_fn_def off Let_def)
       (simp_all add: board_info_def)
  have l3: "\<not> level (snd (run ?calls0 (?o, ?w))) 11 \<and>
            \<not> level (snd (run ?calls0 (?o, ?w))) 10"
    using inv3 st3 pw3 di3 by (simp add: off_lines_low_def case_prod_beta)
  show ?thesis
    using b st3 l3 a st1 l1 pf lv st2 l2 by simp
qed

text \<open>
  The claim as stated fails in the state produced at attach: on the example board with
  the rails left high and the reset line low, the attach succeeds with status Off
  while POWER (GPIO 11) and DISABLE (GPIO 10) are high.
\<close>

theorem attach_off_with_rails_up:
  "fst (wrigley_probe board_pdata probe_ok powered_world)
     = Inr (board_info WRIGLEY_STATUS_OFF False False) \<and>
   status (board_info WRIGLEY_STATUS_OFF False False) = WRIGLEY_STATUS_OFF \<and>
   level (snd (wrigley_probe board_pdata probe_ok powered_world))
     (power_gpio (board_info WRIGLEY_STATUS_OFF False False)) \<and>
   level (snd (wrigley_probe board_pdata probe_ok powered_world))
     (disable_gpio (board_info WRIGLEY_STATUS_OFF False False)) \<and>
   \<not> off_lines_low (board_info WRIGLEY_STATUS_OFF False False,
        snd (wrigley_probe board_pdata probe_ok powered_world))"
  by (simp add: probe_powered_world off_lines_low_def)
     (simp add: board_info_def powered_world_def rails_up_def)

end
